theory Spec2Isabelle
  imports Complex_Main "HOL-Library.Sublist"
begin

text \<open>
  A model of the React components of the automation tool's front end, as far as the
  properties proved below depend on them: the keyword list of \<^verbatim>\<open>ScriptGenerator\<close>, the
  run control of \<^verbatim>\<open>AutomationDashboard\<close>, the upload handler of \<^verbatim>\<open>UploadManager\<close>, and the
  retry and element-location policies whose inputs \<^verbatim>\<open>ConfigManager\<close> edits. Component state
  is a record, an event handler a function from state to state, and an \<^verbatim>\<open>async\<close> handler
  is cut at its \<^verbatim>\<open>await\<close>: the part before it runs at the click, the part after it when
  its timer fires.
\<close>

section \<open>JavaScript values used by the components\<close>

text \<open>
  Strings are lists of 8-bit characters (Latin-1 code units); the white space that
  \<^verbatim>\<open>String.prototype.trim\<close> strips is the ECMAScript set restricted to that range:
  TAB, LF, VT, FF, CR, SPACE and NBSP.
\<close>

definition is_ws :: "char \<Rightarrow> bool" where
  "is_ws c = (c \<in> set [CHR 0x09, CHR 0x0A, CHR 0x0B, CHR 0x0C, CHR 0x0D, CHR 0x20, CHR 0xA0])"

definition trim :: "string \<Rightarrow> string" where
  "trim s = rev (dropWhile is_ws (rev (dropWhile is_ws s)))"

text \<open>\<^verbatim>\<open>s.includes(t)\<close>: \<open>t\<close> occurs in \<open>s\<close> as a contiguous run.\<close>

fun includes_str :: "string \<Rightarrow> string \<Rightarrow> bool" where
  "includes_str [] t = (t = [])"
| "includes_str (c # s) t = (prefix t (c # s) \<or> includes_str s t)"

text \<open>Decimal rendering of a non-negative integer inside a template literal.\<close>

fun show_nat :: "nat \<Rightarrow> string" where
  "show_nat n =
     (if n < 10 then [''0123456789'' ! n]
      else show_nat (n div 10) @ [''0123456789'' ! (n mod 10)])"

text \<open>
  A JavaScript number is an IEEE 754 double. A finite double is modelled by the rational
  it denotes, and every arithmetic result is rounded to a 53-bit significand, ties to
  even (\<open>fl\<close>). The exponent range is not modelled (no overflow to infinity, no
  subnormals) and negative zero is identified with zero: with operands below \<open>2^53\<close> in
  magnitude, as all counters here are, no quotient or product of this development leaves
  the range of normal doubles.
\<close>

function bit_length :: "int \<Rightarrow> nat" where
  "bit_length n = (if n \<le> 0 then 0 else Suc (bit_length (n div 2)))"
  by pat_completeness auto
termination
  by (relation "measure nat") auto

definition round_half_even :: "rat \<Rightarrow> int" where
  "round_half_even m =
     (let f = \<lfloor>m\<rfloor>; d = m - of_int f
      in if d < 1 / 2 then f else if 1 / 2 < d then f + 1 else if even f then f else f + 1)"

text \<open>
  \<open>fl q\<close>: with \<open>2^e \<le> |q| < 2^(e+1)\<close>, the multiple of \<open>2^(e-52)\<close> nearest to \<open>q\<close>.
\<close>

definition fl :: "rat \<Rightarrow> rat" where
  "fl q =
     (if q = 0 then 0
      else let (a, b) = quotient_of \<bar>q\<bar>;
               k = int (bit_length a) - int (bit_length b);
               e = (if 2 powi k \<le> \<bar>q\<bar> then k else k - 1);
               ulp = 2 powi (e - 52)
           in sgn q * of_int (round_half_even (\<bar>q\<bar> / ulp)) * ulp)"

text \<open>
  The finite and the three non-finite values. Division never raises: a zero divisor gives
  \<open>NaN\<close> or an infinity.
\<close>

datatype jsnum = Num rat | PosInf | NegInf | NaN

fun js_div :: "jsnum \<Rightarrow> jsnum \<Rightarrow> jsnum" where
  "js_div (Num a) (Num b) =
     (if b = 0 then (if a = 0 then NaN else if 0 < a then PosInf else NegInf)
      else Num (fl (a / b)))"
| "js_div NaN _ = NaN"
| "js_div _ NaN = NaN"
| "js_div (Num a) _ = Num 0"
| "js_div PosInf (Num b) = (if b < 0 then NegInf else PosInf)"
| "js_div NegInf (Num b) = (if b < 0 then PosInf else NegInf)"
| "js_div _ _ = NaN"

fun js_mul :: "jsnum \<Rightarrow> jsnum \<Rightarrow> jsnum" where
  "js_mul (Num a) (Num b) = Num (fl (a * b))"
| "js_mul NaN _ = NaN"
| "js_mul _ NaN = NaN"
| "js_mul (Num a) PosInf = (if a = 0 then NaN else if 0 < a then PosInf else NegInf)"
| "js_mul (Num a) NegInf = (if a = 0 then NaN else if 0 < a then NegInf else PosInf)"
| "js_mul PosInf (Num b) = (if b = 0 then NaN else if 0 < b then PosInf else NegInf)"
| "js_mul NegInf (Num b) = (if b = 0 then NaN else if 0 < b then NegInf else PosInf)"
| "js_mul PosInf PosInf = PosInf"
| "js_mul NegInf NegInf = PosInf"
| "js_mul _ _ = NegInf"

text \<open>
  \<^verbatim>\<open>Math.round\<close>: the nearest integer, a tie going towards plus infinity. The result is
  exact (it is defined on the value, not by a rounded addition).
\<close>

fun Math_round :: "jsnum \<Rightarrow> jsnum" where
  "Math_round (Num r) = Num (of_int \<lfloor>r + 1 / 2\<rfloor>)"
| "Math_round x = x"

section \<open>ScriptGenerator: the keyword list\<close>

text \<open>
  The part of the component state that \<^verbatim>\<open>handleAddKeyword\<close> and
  \<^verbatim>\<open>handleRemoveKeyword\<close> read and write: the keyword list and the text of the
  "Add keyword" input.
\<close>

record kw_state =
  keywords_st :: "string list"
  newKeyword :: "string"

definition kw_init :: kw_state where
  "kw_init = \<lparr>keywords_st = [], newKeyword = []\<rparr>"

text \<open>
  \<^verbatim>\<open>if (newKeyword.trim() && !keywords.includes(newKeyword.trim())) {
       setKeywords([...keywords, newKeyword.trim()]); setNewKeyword(''); }\<close>
\<close>

definition handleAddKeyword :: "kw_state \<Rightarrow> kw_state" where
  "handleAddKeyword s =
     (if trim (newKeyword s) \<noteq> [] \<and> trim (newKeyword s) \<notin> set (keywords_st s)
      then s\<lparr>keywords_st := keywords_st s @ [trim (newKeyword s)], newKeyword := []\<rparr>
      else s)"

text \<open>\<^verbatim>\<open>setKeywords(keywords.filter(k => k !== keyword))\<close>\<close>

definition handleRemoveKeyword :: "string \<Rightarrow> kw_state \<Rightarrow> kw_state" where
  "handleRemoveKeyword keyword s = s\<lparr>keywords_st := filter (\<lambda>k. k \<noteq> keyword) (keywords_st s)\<rparr>"

text \<open>
  What the user can do to this state: type into the input (\<^verbatim>\<open>setNewKeyword\<close>), press
  Add (or Enter), click a keyword badge.
\<close>

datatype kw_op = TypeKeyword string | AddKeyword | RemoveKeyword string

fun kw_step :: "kw_op \<Rightarrow> kw_state \<Rightarrow> kw_state" where
  "kw_step (TypeKeyword t) s = s\<lparr>newKeyword := t\<rparr>"
| "kw_step AddKeyword s = handleAddKeyword s"
| "kw_step (RemoveKeyword k) s = handleRemoveKeyword k s"

fun kw_run :: "kw_op list \<Rightarrow> kw_state \<Rightarrow> kw_state" where
  "kw_run [] s = s"
| "kw_run (op # ops) s = kw_run ops (kw_step op s)"

text \<open>
  The same run with every keyword paired with the position, in the sequence of
  operations, of the Add that inserted it. It is used only to state that the list is in
  insertion order.
\<close>

fun kw_step_stamped :: "nat \<Rightarrow> kw_op \<Rightarrow> (string \<times> nat) list \<times> string \<Rightarrow> (string \<times> nat) list \<times> string" where
  "kw_step_stamped n (TypeKeyword t) (ks, nk) = (ks, t)"
| "kw_step_stamped n AddKeyword (ks, nk) =
     (if trim nk \<noteq> [] \<and> trim nk \<notin> set (map fst ks) then (ks @ [(trim nk, n)], []) else (ks, nk))"
| "kw_step_stamped n (RemoveKeyword k) (ks, nk) = (filter (\<lambda>p. fst p \<noteq> k) ks, nk)"

fun kw_run_stamped :: "nat \<Rightarrow> kw_op list \<Rightarrow> (string \<times> nat) list \<times> string \<Rightarrow> (string \<times> nat) list \<times> string" where
  "kw_run_stamped n [] st = st"
| "kw_run_stamped n (op # ops) st = kw_run_stamped (Suc n) ops (kw_step_stamped n op st)"

text \<open>Stamps are strictly increasing along the list and below the position \<open>n\<close> reached.\<close>

definition stamps_ok :: "nat \<Rightarrow> (string \<times> nat) list \<Rightarrow> bool" where
  "stamps_ok n ks = (sorted_wrt (<) (map snd ks) \<and> (\<forall>p \<in> set ks. snd p < n))"

section \<open>AutomationDashboard: the run-control state machine\<close>

text \<open>
  The \<^verbatim>\<open>value\<close> fields of the \<^verbatim>\<open>workflowModes\<close> table, in its order (the labels are
  display text only).
\<close>

definition workflowModes :: "string list" where
  "workflowModes =
     [''full_auto'', ''script_only'', ''video_only'', ''upload_only'',
      ''script_and_video'', ''video_and_upload'']"

definition getWorkflowSteps :: "string \<Rightarrow> string list" where
  "getWorkflowSteps workflow =
     (if workflow = ''full_auto'' then [''Generate Script'', ''Create Video'', ''Upload to YouTube'']
      else if workflow = ''script_only'' then [''Generate Script'']
      else if workflow = ''video_only'' then [''Create Video'']
      else if workflow = ''upload_only'' then [''Upload to YouTube'']
      else if workflow = ''script_and_video'' then [''Generate Script'', ''Create Video'']
      else if workflow = ''video_and_upload'' then [''Create Video'', ''Upload to YouTube'']
      else [])"

datatype toast = ToastSuccess string | ToastInfo string | ToastError string

text \<open>
  A call of \<^verbatim>\<open>handleStart\<close> that is suspended at its \<^verbatim>\<open>await\<close>: the workflow name and the
  step list its closure captured, and the loop counter \<open>i\<close>.
\<close>

record run =
  workflow :: string
  steps :: "string list"
  idx :: nat

text \<open>
  The component state (the five \<^verbatim>\<open>useState\<close> cells and the \<^verbatim>\<open>activeWorkflow\<close> prop),
  what the component has sent out (\<^verbatim>\<open>onLog\<close> messages and toasts, oldest first), and the
  suspended \<^verbatim>\<open>handleStart\<close> calls in the order their 2000 ms timers were set, which is the
  order in which the timers fire.
\<close>

record dstate =
  isRunning :: bool
  progress :: jsnum
  currentStep :: string
  videosCreated :: nat
  videosUploaded :: nat
  activeWorkflow :: string
  logs :: "string list"
  toasts :: "toast list"
  runs :: "run list"

definition dashboard_init :: dstate where
  "dashboard_init =
     \<lparr>isRunning = False, progress = Num 0, currentStep = [], videosCreated = 0,
      videosUploaded = 0, activeWorkflow = ''full_auto'', logs = [], toasts = [], runs = []\<rparr>"

text \<open>
  The head of the \<^verbatim>\<open>for\<close> loop of \<^verbatim>\<open>handleStart\<close> at counter \<open>idx r\<close>: either the loop body
  starts (current step set, "Executing step" logged, the call suspends on its timer), or
  the loop is over and the three statements after it run.
\<close>

definition loop_head :: "run \<Rightarrow> dstate \<Rightarrow> dstate" where
  "loop_head r s =
     (if idx r < length (steps r)
      then s\<lparr>currentStep := steps r ! idx r,
             logs := logs s @ [''Executing step: '' @ steps r ! idx r],
             runs := runs s @ [r]\<rparr>
      else s\<lparr>isRunning := False,
             currentStep := ''Completed'',
             toasts := toasts s @ [ToastSuccess (workflow r @ '' workflow completed successfully!'')]\<rparr>)"

definition handleStart :: "dstate \<Rightarrow> dstate" where
  "handleStart s =
     loop_head \<lparr>workflow = activeWorkflow s, steps = getWorkflowSteps (activeWorkflow s), idx = 0\<rparr>
       (s\<lparr>isRunning := True, progress := Num 0,
          logs := logs s @ [''Starting '' @ activeWorkflow s @ '' workflow'']\<rparr>)"

text \<open>The rest of the loop body, after the \<^verbatim>\<open>await\<close>, for the step \<open>st\<close> at counter \<open>i\<close>.\<close>

definition after_await :: "run \<Rightarrow> dstate \<Rightarrow> dstate" where
  "after_await r s =
     (let st = steps r ! idx r;
          stepProgress = js_mul (js_div (Num (of_nat (idx r + 1))) (Num (of_nat (length (steps r))))) (Num 100);
          s1 = s\<lparr>progress := stepProgress\<rparr>
      in if includes_str st ''Script'' then s1\<lparr>logs := logs s1 @ [''Script generation completed'']\<rparr>
         else if includes_str st ''Video''
           then s1\<lparr>videosCreated := videosCreated s1 + 1, logs := logs s1 @ [''Video creation completed'']\<rparr>
         else if includes_str st ''Upload''
           then s1\<lparr>videosUploaded := videosUploaded s1 + 1, logs := logs s1 @ [''Video upload completed'']\<rparr>
         else s1)"

text \<open>The oldest timer fires: that call finishes its loop body and reaches the loop head again.\<close>

definition timer_fires :: "dstate \<Rightarrow> dstate" where
  "timer_fires s =
     (case runs s of
        [] \<Rightarrow> s
      | r # rest \<Rightarrow> loop_head (r\<lparr>idx := idx r + 1\<rparr>) (after_await r (s\<lparr>runs := rest\<rparr>)))"

definition handlePause :: "dstate \<Rightarrow> dstate" where
  "handlePause s =
     s\<lparr>isRunning := False, logs := logs s @ [''Workflow paused''],
       toasts := toasts s @ [ToastInfo ''Workflow paused'']\<rparr>"

definition handleStop :: "dstate \<Rightarrow> dstate" where
  "handleStop s =
     s\<lparr>isRunning := False, progress := Num 0, currentStep := [],
       logs := logs s @ [''Workflow stopped''],
       toasts := toasts s @ [ToastError ''Workflow stopped'']\<rparr>"

definition handleReset :: "dstate \<Rightarrow> dstate" where
  "handleReset s =
     s\<lparr>progress := Num 0, currentStep := [], videosCreated := 0, videosUploaded := 0,
       logs := logs s @ [''Dashboard reset'']\<rparr>"

text \<open>
  What can happen to the dashboard. A click on a button whose \<^verbatim>\<open>disabled\<close> attribute is
  set does nothing: Start is disabled while \<^verbatim>\<open>isRunning\<close>, Pause and Stop while not
  \<^verbatim>\<open>isRunning\<close>. The mode selector offers the six modes of the table.
\<close>

datatype event = ClickStart | ClickPause | ClickStop | ClickReset | SelectWorkflow string | TimerFires

fun dispatch :: "event \<Rightarrow> dstate \<Rightarrow> dstate" where
  "dispatch ClickStart s = (if isRunning s then s else handleStart s)"
| "dispatch ClickPause s = (if isRunning s then handlePause s else s)"
| "dispatch ClickStop s = (if isRunning s then handleStop s else s)"
| "dispatch ClickReset s = handleReset s"
| "dispatch (SelectWorkflow w) s = (if w \<in> set workflowModes then s\<lparr>activeWorkflow := w\<rparr> else s)"
| "dispatch TimerFires s = timer_fires s"

fun exec :: "event list \<Rightarrow> dstate \<Rightarrow> dstate" where
  "exec [] s = s"
| "exec (e # es) s = exec es (dispatch e s)"

text \<open>The stages whose start was reported, read off the log: the "Executing step" lines.\<close>

definition stage_starts :: "string list \<Rightarrow> string list" where
  "stage_starts ls =
     map (drop (length ''Executing step: '')) (filter (prefix ''Executing step: '') ls)"

text \<open>
  The "Success Rate" cell:
  \<^verbatim>\<open>videosCreated > 0 ? Math.round((videosUploaded / videosCreated) * 100) : 0\<close>
\<close>

definition success_rate :: "nat \<Rightarrow> nat \<Rightarrow> jsnum" where
  "success_rate created uploaded =
     (if created > 0
      then Math_round (js_mul (js_div (Num (of_nat uploaded)) (Num (of_nat created))) (Num 100))
      else Num 0)"

section \<open>UploadManager\<close>

text \<open>A \<^verbatim>\<open>File\<close> chosen in a file input; the component reads only its name.\<close>

record js_file =
  file_name :: string

text \<open>
  \<^verbatim>\<open>interface UploadedVideo\<close>. Its fields \<^verbatim>\<open>id\<close> and \<^verbatim>\<open>title\<close> carry the suffix \<open>_v\<close> here; the
  optional \<^verbatim>\<open>scheduledFor\<close> is \<open>None\<close> when \<^verbatim>\<open>undefined\<close>.
\<close>

datatype video_status = Uploaded | Scheduled | Processing

record UploadedVideo =
  id_v :: string
  title_v :: string
  uploadedAt :: string
  status :: video_status
  scheduledFor :: "string option"

record upload_details =
  title :: string
  description :: string
  tags :: string
  visibility :: string
  category :: string
  thumbnail :: "js_file option"

record schedule_settings =
  scheduleVideo :: bool
  timeSlot :: string
  timezone :: string
  autoTags :: bool
  autoCaptions :: bool

text \<open>
  The six \<^verbatim>\<open>useState\<close> cells of the component, and what it has sent out (\<^verbatim>\<open>onLog\<close>
  messages and toasts, oldest first).
\<close>

record ustate =
  videoFile :: "js_file option"
  uploadDetails :: upload_details
  scheduleSettings :: schedule_settings
  isUploading :: bool
  uploadProgress :: jsnum
  uploadedVideos :: "UploadedVideo list"
  ulogs :: "string list"
  utoasts :: "toast list"

definition empty_details :: upload_details where
  "empty_details =
     \<lparr>title = [], description = [], tags = [], visibility = ''public'',
      category = ''Entertainment'', thumbnail = None\<rparr>"

definition upload_init :: ustate where
  "upload_init =
     \<lparr>videoFile = None,
      uploadDetails = empty_details,
      scheduleSettings =
        \<lparr>scheduleVideo = True, timeSlot = ''06:00'', timezone = ''Asia/Cairo'',
         autoTags = True, autoCaptions = True\<rparr>,
      isUploading = False,
      uploadProgress = Num 0,
      uploadedVideos =
        [\<lparr>id_v = ''vid_001'', title_v = ''AI Productivity Tips'',
          uploadedAt = ''2024-01-15 14:30'', status = Uploaded, scheduledFor = None\<rparr>,
         \<lparr>id_v = ''vid_002'', title_v = ''Future of Technology'',
          uploadedAt = ''2024-01-14 09:15'', status = Scheduled,
          scheduledFor = Some ''2024-01-16 12:00''\<rparr>],
      ulogs = [], utoasts = []\<rparr>"

text \<open>
  What \<^verbatim>\<open>handleUpload\<close> reads from the clock when the upload finishes: \<^verbatim>\<open>Date.now()\<close>,
  \<^verbatim>\<open>new Date().toLocaleString()\<close> and \<^verbatim>\<open>new Date().toDateString()\<close>.
\<close>

record clock =
  now :: nat
  localeString :: string
  dateString :: string

definition uploadSteps :: "string list" where
  "uploadSteps =
     [''Preparing video file'', ''Uploading to YouTube'', ''Processing video'',
      ''Setting metadata'', ''Configuring privacy settings'', ''Generating auto-captions'',
      ''Adding tags'', ''Scheduling publication'', ''Upload complete'']"

text \<open>
  The simulated progress loop over the steps that remain, at counter \<open>i\<close> of \<open>n\<close>: log the
  step, wait, publish \<^verbatim>\<open>((i + 1) / n) * 100\<close>.
\<close>

fun upload_loop :: "string list \<Rightarrow> nat \<Rightarrow> nat \<Rightarrow> ustate \<Rightarrow> ustate" where
  "upload_loop [] i n s = s"
| "upload_loop (st # rest) i n s =
     upload_loop rest (i + 1) n
       (s\<lparr>ulogs := ulogs s @ [''Upload step: '' @ st],
          uploadProgress := js_mul (js_div (Num (of_nat (i + 1))) (Num (of_nat n))) (Num 100)\<rparr>)"

definition newVideo :: "clock \<Rightarrow> ustate \<Rightarrow> UploadedVideo" where
  "newVideo clk s =
     \<lparr>id_v = ''vid_'' @ show_nat (now clk),
      title_v = title (uploadDetails s),
      uploadedAt = localeString clk,
      status = (if scheduleVideo (scheduleSettings s) then Scheduled else Uploaded),
      scheduledFor =
        (if scheduleVideo (scheduleSettings s)
         then Some (dateString clk @ '' '' @ timeSlot (scheduleSettings s)) else None)\<rparr>"

text \<open>
  \<^verbatim>\<open>handleUpload\<close>, run from the click to its last statement with no other event in between
  (the Upload button is disabled while \<^verbatim>\<open>isUploading\<close>). The title and the schedule
  settings are the ones of the state at the click, which the closure captured.
\<close>

definition handleUpload :: "clock \<Rightarrow> ustate \<Rightarrow> ustate" where
  "handleUpload clk s =
     (if videoFile s = None
      then s\<lparr>utoasts := utoasts s @ [ToastError ''Please select a video file first'']\<rparr>
      else if trim (title (uploadDetails s)) = []
      then s\<lparr>utoasts := utoasts s @ [ToastError ''Please enter a video title'']\<rparr>
      else
        let s1 = s\<lparr>isUploading := True, uploadProgress := Num 0,
                    ulogs := ulogs s @ [''Starting YouTube upload...'']\<rparr>;
            s2 = upload_loop uploadSteps 0 (length uploadSteps) s1
        in s2\<lparr>uploadedVideos := newVideo clk s # uploadedVideos s2,
               isUploading := False,
               uploadProgress := Num 0,
               ulogs := ulogs s2 @ [''YouTube upload completed successfully''],
               utoasts := utoasts s2 @ [ToastSuccess ''Video uploaded successfully!''],
               videoFile := None,
               uploadDetails := empty_details\<rparr>)"

section \<open>RetryPolicy and ElementLocator\<close>

text \<open>
  The configuration screen holds the inputs of these two components
  (\<^verbatim>\<open>retryAttempts: 3\<close> and the selector candidate lists per site and action); the engine
  that consumes them is not among the source files, so both are modelled from the design
  document.
\<close>

definition retryAttempts :: nat where
  "retryAttempts = 3"

definition capcut_generateButton :: "string list" where
  "capcut_generateButton = [''#generate'', ''.generate-btn'', ''.ai-generate'']"

datatype failure_class = RetryableFailure | FatalFailure

datatype ('a, 'e) attempt_outcome = Success 'a | Failure 'e

datatype ('a, 'e) retry_result = Succeeded 'a | Aborted 'e | Exhausted "'e option"

text \<open>
  Modelled from the spec: the backoff delay of \<^verbatim>\<open>RetryPolicy\<close>, which is missing from the
  sources: \<^verbatim>\<open>delay = baseDelay * 2^(attempt-1)\<close>, capped. The cap is a parameter.
\<close>

definition backoff_delay :: "nat \<Rightarrow> nat \<Rightarrow> nat \<Rightarrow> nat" where
  "backoff_delay baseDelay cap attempt = min cap (baseDelay * 2 ^ (attempt - 1))"

text \<open>
  Modelled from the spec: the retry loop of \<^verbatim>\<open>RetryPolicy.Run\<close>, which is missing from the
  sources. \<open>operation a\<close> is the outcome of attempt number \<open>a\<close> (counted from 1),
  \<open>classify\<close> the injected predicate, \<open>jitter a\<close> what is added to the delay after
  attempt \<open>a\<close>. The first argument is the number of attempts still allowed. The result is
  the outcome, the number of attempts made, the backoff delays computed and the waits
  slept (delay plus jitter), in order. A success or a fatal failure ends the loop; a
  retryable failure is followed, after the delay, by the next attempt while any is left.
\<close>

fun retry_from ::
  "nat \<Rightarrow> nat \<Rightarrow> (nat \<Rightarrow> ('a, 'e) attempt_outcome) \<Rightarrow> ('e \<Rightarrow> failure_class) \<Rightarrow> nat \<Rightarrow> nat \<Rightarrow>
   (nat \<Rightarrow> nat) \<Rightarrow> ('a, 'e) retry_result \<times> nat \<times> nat list \<times> nat list" where
  "retry_from 0 attempt operation classify baseDelay cap jitter = (Exhausted None, 0, [], [])"
| "retry_from (Suc left) attempt operation classify baseDelay cap jitter =
     (case operation attempt of
        Success v \<Rightarrow> (Succeeded v, 1, [], [])
      | Failure e \<Rightarrow>
          (case classify e of
             FatalFailure \<Rightarrow> (Aborted e, 1, [], [])
           | RetryableFailure \<Rightarrow>
               if left = 0 then (Exhausted (Some e), 1, [], [])
               else
                 let d = backoff_delay baseDelay cap attempt;
                     (r, n, ds, ws) =
                       retry_from left (attempt + 1) operation classify baseDelay cap jitter
                 in (r, n + 1, d # ds, (d + jitter attempt) # ws)))"

text \<open>
  Modelled from the spec: \<^verbatim>\<open>RetryPolicy.Run(operation, maxAttempts, baseDelay)\<close>, which is
  missing from the sources.
\<close>

definition Run ::
  "(nat \<Rightarrow> ('a, 'e) attempt_outcome) \<Rightarrow> ('e \<Rightarrow> failure_class) \<Rightarrow> nat \<Rightarrow> nat \<Rightarrow> nat \<Rightarrow>
   (nat \<Rightarrow> nat) \<Rightarrow> ('a, 'e) retry_result \<times> nat \<times> nat list \<times> nat list" where
  "Run operation classify maxAttempts baseDelay cap jitter =
     retry_from maxAttempts 1 operation classify baseDelay cap jitter"

definition run_result :: "('a, 'e) retry_result \<times> nat \<times> nat list \<times> nat list \<Rightarrow> ('a, 'e) retry_result" where
  "run_result r = fst r"

definition run_attempts :: "('a, 'e) retry_result \<times> nat \<times> nat list \<times> nat list \<Rightarrow> nat" where
  "run_attempts r = fst (snd r)"

definition run_delays :: "('a, 'e) retry_result \<times> nat \<times> nat list \<times> nat list \<Rightarrow> nat list" where
  "run_delays r = fst (snd (snd r))"

datatype locator_error = ConfigurationError | ElementNotFound

text \<open>
  Modelled from the spec: the candidate loop of \<^verbatim>\<open>ElementLocator.Resolve\<close>, which is
  missing from the sources. \<open>poll c t\<close> is the answer of the browser session when
  candidate \<open>c\<close> is polled for up to \<open>t\<close>: the element handle, or \<open>None\<close> on timeout. The
  result is the outcome and the candidates that were polled, in order.
\<close>

fun try_candidates ::
  "(string \<Rightarrow> nat \<Rightarrow> 'h option) \<Rightarrow> nat \<Rightarrow> string list \<Rightarrow> (locator_error + 'h) \<times> string list" where
  "try_candidates poll t [] = (Inl ElementNotFound, [])"
| "try_candidates poll t (c # cs) =
     (case poll c t of
        Some h \<Rightarrow> (Inr h, [c])
      | None \<Rightarrow> (let (r, polled) = try_candidates poll t cs in (r, c # polled)))"

text \<open>
  Modelled from the spec: \<^verbatim>\<open>ElementLocator.Resolve(session, selectorCandidates,
  perCandidateTimeout)\<close>, which is missing from the sources. An empty candidate list is a
  configuration error, reported before the session is touched.
\<close>

definition Resolve ::
  "(string \<Rightarrow> nat \<Rightarrow> 'h option) \<Rightarrow> string list \<Rightarrow> nat \<Rightarrow> (locator_error + 'h) \<times> string list" where
  "Resolve poll selectorCandidates perCandidateTimeout =
     (if selectorCandidates = [] then (Inl ConfigurationError, [])
      else try_candidates poll perCandidateTimeout selectorCandidates)"

section \<open>Properties of the keyword list\<close>

declare bit_length.simps [simp del]

lemma kw_step_distinct:
  "distinct (keywords_st s) \<Longrightarrow> distinct (keywords_st (kw_step op s))"
  by (cases op) (simp_all add: handleAddKeyword_def handleRemoveKeyword_def)

lemma kw_run_distinct:
  "distinct (keywords_st s) \<Longrightarrow> distinct (keywords_st (kw_run ops s))"
  by (induction ops arbitrary: s) (simp_all add: kw_step_distinct)

lemma kw_step_stamped_refines:
  "kw_step_stamped n op (ks, nk) = (ks', nk') \<Longrightarrow>
   kw_step op \<lparr>keywords_st = map fst ks, newKeyword = nk\<rparr> =
     \<lparr>keywords_st = map fst ks', newKeyword = nk'\<rparr>"
  by (cases op)
    (auto simp: handleAddKeyword_def handleRemoveKeyword_def filter_map comp_def
      split: if_splits)

lemma kw_run_stamped_refines:
  "kw_run_stamped n ops (ks, nk) = (ks', nk') \<Longrightarrow>
   kw_run ops \<lparr>keywords_st = map fst ks, newKeyword = nk\<rparr> =
     \<lparr>keywords_st = map fst ks', newKeyword = nk'\<rparr>"
proof (induction ops arbitrary: n ks nk)
  case Nil
  then show ?case by simp
next
  case (Cons op ops)
  obtain ks1 nk1 where st: "kw_step_stamped n op (ks, nk) = (ks1, nk1)"
    by (cases "kw_step_stamped n op (ks, nk)")
  from Cons.prems st have "kw_run_stamped (Suc n) ops (ks1, nk1) = (ks', nk')"
    by simp
  from Cons.IH [OF this] kw_step_stamped_refines [OF st] show ?case
    by simp
qed

lemma kw_step_stamped_ok:
  "stamps_ok n ks \<Longrightarrow> stamps_ok (Suc n) (fst (kw_step_stamped n op (ks, nk)))"
  by (cases op)
    (auto simp: stamps_ok_def sorted_wrt_append sorted_wrt_map
      intro: sorted_wrt_filter less_SucI)

lemma kw_run_stamped_ok:
  "stamps_ok n ks \<Longrightarrow> stamps_ok (n + length ops) (fst (kw_run_stamped n ops (ks, nk)))"
proof (induction ops arbitrary: n ks nk)
  case Nil
  then show ?case by simp
next
  case (Cons op ops)
  obtain ks1 nk1 where st: "kw_step_stamped n op (ks, nk) = (ks1, nk1)"
    by (cases "kw_step_stamped n op (ks, nk)")
  with kw_step_stamped_ok [OF Cons.prems, of op nk] have "stamps_ok (Suc n) ks1"
    by simp
  from Cons.IH [OF this, of nk1] st show ?case
    by simp
qed

text \<open>
  C8. The keyword list is an ordered set. After any sequence of typing, Add and Remove
  operations from the initial (empty) list: the list has no duplicates; it is the list of
  the stamped run, whose stamps (the position of the Add that inserted each keyword) are
  strictly increasing, so the keywords that remain stand in the order in which they were
  inserted. An Add whose trimmed input is blank or already in the list changes nothing;
  any Add keeps the list as an initial stretch of the new one, and a Remove leaves a
  subsequence of the list.
\<close>

theorem keywords_ordered_set:
  "distinct (keywords_st (kw_run ops kw_init))
   \<and> keywords_st (kw_run ops kw_init) = map fst (fst (kw_run_stamped 0 ops ([], [])))
   \<and> sorted_wrt (<) (map snd (fst (kw_run_stamped 0 ops ([], []))))
   \<and> (trim (newKeyword s) = [] \<or> trim (newKeyword s) \<in> set (keywords_st s)
        \<longrightarrow> handleAddKeyword s = s)
   \<and> prefix (keywords_st s) (keywords_st (handleAddKeyword s))
   \<and> subseq (keywords_st (handleRemoveKeyword k s)) (keywords_st s)"
proof -
  have d: "distinct (keywords_st (kw_run ops kw_init))"
    by (rule kw_run_distinct) (simp add: kw_init_def)
  obtain ks' nk' where r: "kw_run_stamped 0 ops ([], []) = (ks', nk')"
    by (cases "kw_run_stamped 0 ops ([], [])")
  from kw_run_stamped_refines [OF r]
  have m: "keywords_st (kw_run ops kw_init) = map fst (fst (kw_run_stamped 0 ops ([], [])))"
    by (simp add: kw_init_def r)
  have "stamps_ok 0 []"
    by (simp add: stamps_ok_def)
  from kw_run_stamped_ok [OF this, of ops "[]"]
  have o: "sorted_wrt (<) (map snd (fst (kw_run_stamped 0 ops ([], []))))"
    by (simp add: stamps_ok_def)
  have a: "trim (newKeyword s) = [] \<or> trim (newKeyword s) \<in> set (keywords_st s)
        \<longrightarrow> handleAddKeyword s = s"
    by (auto simp: handleAddKeyword_def)
  have p: "prefix (keywords_st s) (keywords_st (handleAddKeyword s))"
    by (simp add: handleAddKeyword_def)
  have q: "subseq (keywords_st (handleRemoveKeyword k s)) (keywords_st s)"
    by (simp add: handleRemoveKeyword_def)
  from d m o a p q show ?thesis
    by blast
qed

theorem keywords_ordered_set_witness:
  "kw_run [TypeKeyword '' ai '', AddKeyword, TypeKeyword ''tips'', AddKeyword,
           TypeKeyword ''ai'', AddKeyword, RemoveKeyword ''ai'', TypeKeyword ''ai'', AddKeyword]
     kw_init = \<lparr>keywords_st = [''tips'', ''ai''], newKeyword = []\<rparr>
   \<and> fst (kw_run_stamped 0
        [TypeKeyword '' ai '', AddKeyword, TypeKeyword ''tips'', AddKeyword,
         TypeKeyword ''ai'', AddKeyword, RemoveKeyword ''ai'', TypeKeyword ''ai'', AddKeyword]
        ([], [])) = [(''tips'', 3), (''ai'', 8)]
   \<and> trim ''  '' = []
   \<and> handleAddKeyword \<lparr>keywords_st = [''tips''], newKeyword = ''  ''\<rparr>
       = \<lparr>keywords_st = [''tips''], newKeyword = ''  ''\<rparr>
   \<and> handleAddKeyword \<lparr>keywords_st = [''tips''], newKeyword = '' tips''\<rparr>
       = \<lparr>keywords_st = [''tips''], newKeyword = '' tips''\<rparr>"
  using keywords_ordered_set [of "[]" "\<lparr>keywords_st = [''tips''], newKeyword = ''  ''\<rparr>"]
    keywords_ordered_set [of "[]" "\<lparr>keywords_st = [''tips''], newKeyword = '' tips''\<rparr>"]
  by (simp add: kw_init_def handleAddKeyword_def handleRemoveKeyword_def trim_def is_ws_def)

section \<open>Properties of the success rate\<close>

lemma Math_round_finite:
  "Math_round (js_mul (js_div (Num a) (Num b)) (Num c)) =
     (if b = 0 then (if a = 0 then NaN
                     else if 0 < a then (if c = 0 then NaN else if 0 < c then PosInf else NegInf)
                     else (if c = 0 then NaN else if 0 < c then NegInf else PosInf))
      else Num (of_int \<lfloor>fl (fl (a / b) * c) + 1 / 2\<rfloor>))"
  by simp

text \<open>Without the guard the cell would show \<open>NaN\<close> when nothing was created or uploaded.\<close>

lemma unguarded_rate_at_zero:
  "Math_round (js_mul (js_div (Num (of_nat 0)) (Num (of_nat 0))) (Num 100)) = NaN"
  by simp

text \<open>
  C10. The success rate is total and division-safe. With \<open>created > 0\<close> it is
  \<^verbatim>\<open>Math.round((uploaded / created) * 100)\<close> evaluated in double arithmetic, a finite
  integer; with \<open>created = 0\<close> it is \<open>0\<close>, and the quotient is not formed. It is never
  \<open>NaN\<close> or infinite.
\<close>

theorem success_rate_division_safe:
  "(0 < created \<longrightarrow>
      success_rate created uploaded =
        Math_round (js_mul (js_div (Num (of_nat uploaded)) (Num (of_nat created))) (Num 100))
      \<and> success_rate created uploaded =
        Num (of_int \<lfloor>fl (fl (of_nat uploaded / of_nat created) * 100) + 1 / 2\<rfloor>))
   \<and> (created = 0 \<longrightarrow> success_rate created uploaded = Num 0)
   \<and> success_rate created uploaded \<notin> {NaN, PosInf, NegInf}"
  by (simp add: success_rate_def)

theorem success_rate_division_safe_witness:
  "(0::nat) < 3 \<and> success_rate 3 2 = Num 67 \<and> success_rate 0 2 = Num 0"
proof -
  have p: "(0::nat) < 3"
    by simp
  from success_rate_division_safe [of 3 2] p
  have e: "success_rate 3 2 =
      Math_round (js_mul (js_div (Num (of_nat 2)) (Num (of_nat 3))) (Num 100))"
    by blast
  have v: "Math_round (js_mul (js_div (Num (of_nat 2)) (Num (of_nat 3))) (Num 100)) = Num 67"
    by code_simp
  from e v have r: "success_rate 3 2 = Num 67"
    by (rule trans)
  from success_rate_division_safe [of 0 2] have z: "success_rate 0 2 = Num 0"
    by blast
  from p r z show ?thesis
    by blast
qed

text \<open>
  The rounding of doubles is visible in the cell: with 200 created and 201 uploaded the
  quotient is the double next to 1.005, its product with 100 lies below 100.5, and the
  cell shows 100.
\<close>

lemma success_rate_200_201: "success_rate 200 201 = Num 100"
  by code_simp


section \<open>Properties of double rounding\<close>

text \<open>
  The exponent that \<open>fl\<close> derives from the bit lengths of numerator and denominator is
  not above the true one, so the rounding error is at most half a unit in the last place:
  \<open>|fl q - q| \<le> |q| / 2^53\<close>.
\<close>

lemma bit_length_bounds:
  "0 < n \<Longrightarrow> 2 ^ (bit_length n - 1) \<le> n \<and> n < 2 ^ bit_length n"
proof (induction n rule: bit_length.induct)
  case (1 n)
  show ?case
  proof (cases "n div 2 \<le> 0")
    case True
    with 1 have "n = 1" by linarith
    then show ?thesis
      by (simp add: bit_length.simps [of 1] bit_length.simps [of 0])
  next
    case False
    then have pos: "0 < n div 2" by simp
    from 1 have nle: "\<not> n \<le> 0" by simp
    from "1.IH" [OF nle pos]
    have lo: "2 ^ (bit_length (n div 2) - 1) \<le> n div 2" and hi: "n div 2 < 2 ^ bit_length (n div 2)"
      by simp_all
    have bl: "bit_length n = Suc (bit_length (n div 2))"
      using nle by (simp add: bit_length.simps [of n])
    have blpos: "0 < bit_length (n div 2)"
      using pos by (simp add: bit_length.simps [of "n div 2"])
    then have e: "(2::int) ^ bit_length (n div 2) = 2 * 2 ^ (bit_length (n div 2) - 1)"
      by (cases "bit_length (n div 2)") simp_all
    have "2 * (n div 2) \<le> n" by simp
    with lo e have a: "2 ^ (bit_length n - 1) \<le> n"
      by (simp add: bl)
    from hi have "n div 2 + 1 \<le> 2 ^ bit_length (n div 2)" by simp
    then have "2 * (n div 2) + 2 \<le> 2 * 2 ^ bit_length (n div 2)" by simp
    moreover have "n < 2 * (n div 2) + 2" by linarith
    ultimately have b: "n < 2 ^ bit_length n"
      by (simp add: bl)
    from a b show ?thesis by simp
  qed
qed

lemma round_half_even_error: "\<bar>of_int (round_half_even m) - m\<bar> \<le> 1 / 2"
proof -
  have "of_int \<lfloor>m\<rfloor> \<le> m" "m < of_int \<lfloor>m\<rfloor> + 1"
    by linarith+
  then show ?thesis
    by (auto simp: round_half_even_def Let_def abs_le_iff)
qed


lemma fl_exponent_below:
  assumes "q \<noteq> 0" and "quotient_of \<bar>q\<bar> = (a, b)"
  shows "2 powi (int (bit_length a) - int (bit_length b) - 1) \<le> \<bar>q\<bar>"
proof -
  from assms(2) have b: "0 < b" and q: "\<bar>q\<bar> = of_int a / of_int b"
    by (simp_all add: quotient_of_denom_pos quotient_of_div)
  from assms(1) have "0 < \<bar>q\<bar>" by simp
  with q b have a: "0 < a"
    by (simp add: zero_less_divide_iff)
  from bit_length_bounds [OF a] have lo: "2 ^ (bit_length a - 1) \<le> a" by simp
  from bit_length_bounds [OF b] have hi: "b < 2 ^ bit_length b" by simp
  have la: "0 < bit_length a"
    using a by (simp add: bit_length.simps [of a])
  then have "int (bit_length a) - int (bit_length b) - 1 = int (bit_length a - 1) - int (bit_length b)"
    by simp
  then have "(2::rat) powi (int (bit_length a) - int (bit_length b) - 1) =
      2 powi (int (bit_length a - 1) - int (bit_length b))"
    by (simp only:)
  also have "\<dots> = 2 powi int (bit_length a - 1) / 2 powi int (bit_length b)"
    by (rule power_int_diff) simp
  also have "\<dots> = 2 ^ (bit_length a - 1) / 2 ^ bit_length b"
    by (simp only: power_int_of_nat)
  also have "\<dots> \<le> of_int a / 2 ^ bit_length b"
  proof -
    from lo have "(of_int (2 ^ (bit_length a - 1)) :: rat) \<le> of_int a"
      by (simp only: of_int_le_iff)
    then show ?thesis
      by (simp add: divide_right_mono)
  qed
  also have "\<dots> \<le> of_int a / of_int b"
  proof -
    from hi have "(of_int b :: rat) \<le> of_int (2 ^ bit_length b)"
      by (simp only: of_int_le_iff)
    moreover from b have "(0::rat) < of_int b" by simp
    moreover from a have "(0::rat) \<le> of_int a" by simp
    ultimately show ?thesis
      by (simp add: divide_left_mono)
  qed
  finally show ?thesis
    by (simp add: q)
qed

lemma fl_error: "\<bar>fl q - q\<bar> \<le> \<bar>q\<bar> / 2 ^ 53"
proof (cases "q = 0")
  case True
  then show ?thesis by (simp add: fl_def)
next
  case False
  obtain a b where ab: "quotient_of \<bar>q\<bar> = (a, b)"
    by (cases "quotient_of \<bar>q\<bar>")
  define k where "k = int (bit_length a) - int (bit_length b)"
  define e where "e = (if 2 powi k \<le> \<bar>q\<bar> then k else k - 1)"
  define ulp :: rat where "ulp = 2 powi (e - 52)"
  define n where "n = round_half_even (\<bar>q\<bar> / ulp)"
  have fl: "fl q = sgn q * of_int n * ulp"
    using False ab by (simp add: fl_def Let_def k_def e_def ulp_def n_def)
  have elow: "2 powi e \<le> \<bar>q\<bar>"
    using fl_exponent_below [OF False ab] by (simp add: e_def k_def)
  have upos: "0 < ulp"
    by (simp add: ulp_def)
  have u: "ulp = 2 powi e / 2 ^ 52"
    by (simp add: ulp_def power_int_diff)
  have "fl q - q = sgn q * (of_int n * ulp - \<bar>q\<bar>)"
    by (simp add: fl algebra_simps abs_mult_sgn mult_sgn_abs)
  then have "\<bar>fl q - q\<bar> = \<bar>of_int n * ulp - \<bar>q\<bar>\<bar>"
    using False by (simp add: abs_mult)
  also have "of_int n * ulp - \<bar>q\<bar> = (of_int n - \<bar>q\<bar> / ulp) * ulp"
    using upos by (simp add: algebra_simps)
  also have "\<bar>(of_int n - \<bar>q\<bar> / ulp) * ulp\<bar> = \<bar>of_int n - \<bar>q\<bar> / ulp\<bar> * ulp"
    using upos by (simp add: abs_mult)
  also have "\<dots> \<le> 1 / 2 * ulp"
    using round_half_even_error [of "\<bar>q\<bar> / ulp"] upos
    by (simp only: n_def mult_right_mono less_imp_le)
  also have "\<dots> = 2 powi e / 2 ^ 53"
    by (simp add: u)
  also have "\<dots> \<le> \<bar>q\<bar> / 2 ^ 53"
    using elow by (simp add: divide_right_mono)
  finally show ?thesis .
qed


lemma percent_error:
  assumes "0 < i" and "i \<le> m"
  shows "\<bar>fl (fl (of_nat i / of_nat m) * 100) - 100 * of_nat i / of_nat m\<bar> \<le> 1 / 2 ^ 45"
proof -
  define x :: rat where "x = of_nat i / of_nat m"
  define u :: rat where "u = 1 / 2 ^ 53"
  define c :: rat where "c = (100 + 100 * u) * u"
  from assms have x0: "0 \<le> x" and x1: "x \<le> 1"
    by (simp_all add: x_def)
  have u0: "0 \<le> u"
    by (simp add: u_def)
  define d1 where "d1 = fl x - x"
  define d2 where "d2 = fl (fl x * 100) - fl x * 100"
  have "\<bar>d1\<bar> \<le> \<bar>x\<bar> * u"
    using fl_error [of x] by (simp add: d1_def u_def)
  also have "\<bar>x\<bar> * u \<le> 1 * u"
    using x0 x1 u0 by (intro mult_right_mono) simp_all
  finally have b1: "\<bar>d1\<bar> \<le> u"
    by simp
  have fx: "fl x = x + d1"
    by (simp add: d1_def)
  have "\<bar>fl x * 100\<bar> = \<bar>fl x\<bar> * 100"
    by (simp add: abs_mult)
  also have "\<dots> \<le> 100 + 100 * u"
    using b1 x0 x1 unfolding fx by (auto simp: abs_le_iff abs_if split: if_splits)
  finally have b: "\<bar>fl x * 100\<bar> \<le> 100 + 100 * u" .
  have "\<bar>d2\<bar> \<le> \<bar>fl x * 100\<bar> * u"
    using fl_error [of "fl x * 100"] by (simp add: d2_def u_def)
  also have "\<dots> \<le> (100 + 100 * u) * u"
    using b u0 by (rule mult_right_mono)
  finally have b2: "\<bar>d2\<bar> \<le> c"
    by (simp add: c_def)
  have num: "c + 100 * u \<le> 1 / 2 ^ 45"
    by (simp add: c_def u_def)
  have "fl (fl x * 100) - 100 * x = d2 + 100 * d1"
    by (simp add: d2_def fx)
  with b1 b2 num have "\<bar>fl (fl x * 100) - 100 * x\<bar> \<le> 1 / 2 ^ 45"
    by (auto simp: abs_le_iff abs_if split: if_splits)
  then show ?thesis
    by (simp add: x_def)
qed

section \<open>Properties of the dashboard\<close>

lemma exec_append: "exec (es @ fs) s = exec fs (exec es s)"
  by (induction es arbitrary: s) simp_all

lemma exec_ticks_Suc:
  "exec (replicate (Suc j) TimerFires) s = timer_fires (exec (replicate j TimerFires) s)"
proof -
  have "replicate (Suc j) TimerFires = replicate j TimerFires @ [TimerFires]"
    by (simp add: replicate_append_same)
  then show ?thesis
    by (simp only: exec_append) simp
qed

lemma after_await_runs: "runs (after_await r s) = runs s"
  by (simp add: after_await_def Let_def)

lemma after_await_stage_starts:
  "stage_starts (logs (after_await r s)) = stage_starts (logs s)"
  by (simp add: after_await_def Let_def stage_starts_def)

lemma after_await_progress:
  "idx r < length (steps r) \<Longrightarrow>
   progress (after_await r s) =
     Num (fl (fl (of_nat (idx r + 1) / of_nat (length (steps r))) * 100))"
  by (auto simp add: after_await_def Let_def)

lemma fl_1: "fl 1 = 1"
  by code_simp

lemma fl_100: "fl 100 = 100"
  by code_simp


lemma loop_head_continue:
  "idx r < length (steps r) \<Longrightarrow>
   runs (loop_head r s) = runs s @ [r]
   \<and> stage_starts (logs (loop_head r s)) = stage_starts (logs s) @ [steps r ! idx r]
   \<and> progress (loop_head r s) = progress s
   \<and> isRunning (loop_head r s) = isRunning s"
  by (simp add: loop_head_def stage_starts_def)

lemma loop_head_finish:
  "\<not> idx r < length (steps r) \<Longrightarrow>
   runs (loop_head r s) = runs s
   \<and> logs (loop_head r s) = logs s
   \<and> progress (loop_head r s) = progress s
   \<and> \<not> isRunning (loop_head r s)
   \<and> currentStep (loop_head r s) = ''Completed''"
  by (simp add: loop_head_def)

lemma timer_fires_single:
  assumes "runs s = [r]"
  shows "timer_fires s = loop_head (r\<lparr>idx := idx r + 1\<rparr>) (after_await r (s\<lparr>runs := []\<rparr>))"
  using assms by (simp add: timer_fires_def)

lemma run_alone_state:
  assumes idle: "runs s = []"
    and j: "j < length (getWorkflowSteps (activeWorkflow s))"
  shows "runs (exec (replicate j TimerFires) (handleStart s)) =
           [\<lparr>workflow = activeWorkflow s, steps = getWorkflowSteps (activeWorkflow s), idx = j\<rparr>]
         \<and> stage_starts (logs (exec (replicate j TimerFires) (handleStart s))) =
             stage_starts (logs s) @ take (Suc j) (getWorkflowSteps (activeWorkflow s))
         \<and> (0 < j \<longrightarrow> progress (exec (replicate j TimerFires) (handleStart s)) =
             Num (fl (fl (of_nat j / of_nat (length (getWorkflowSteps (activeWorkflow s)))) * 100)))"
  using j
proof (induction j)
  case 0
  let ?r = "\<lparr>workflow = activeWorkflow s, steps = getWorkflowSteps (activeWorkflow s), idx = 0\<rparr>"
  from 0 have "idx ?r < length (steps ?r)"
    by simp
  from loop_head_continue [OF this] idle 0 show ?case
    by (simp add: handleStart_def stage_starts_def take_Suc_conv_app_nth)
next
  case (Suc j)
  let ?w = "activeWorkflow s"
  let ?st = "getWorkflowSteps ?w"
  let ?sj = "exec (replicate j TimerFires) (handleStart s)"
  let ?r = "\<lparr>workflow = ?w, steps = ?st, idx = j\<rparr>"
  from Suc have jl: "j < length ?st"
    by simp
  from Suc.IH [OF jl] have rj: "runs ?sj = [?r]"
    and lj: "stage_starts (logs ?sj) = stage_starts (logs s) @ take (Suc j) ?st"
    by simp_all
  let ?a = "after_await ?r (?sj\<lparr>runs := []\<rparr>)"
  have tf: "exec (replicate (Suc j) TimerFires) (handleStart s) = loop_head (?r\<lparr>idx := idx ?r + 1\<rparr>) ?a"
    by (simp only: exec_ticks_Suc timer_fires_single [OF rj])
  have c: "idx (?r\<lparr>idx := idx ?r + 1\<rparr>) < length (steps (?r\<lparr>idx := idx ?r + 1\<rparr>))"
    using Suc.prems by simp
  have pa: "progress ?a = Num (fl (fl (of_nat (Suc j) / of_nat (length ?st)) * 100))"
    using after_await_progress [of ?r "?sj\<lparr>runs := []\<rparr>"] jl by simp
  have la: "stage_starts (logs ?a) = stage_starts (logs s) @ take (Suc j) ?st"
    using lj by (simp add: after_await_stage_starts)
  have ra: "runs ?a = []"
    by (simp add: after_await_runs)
  from loop_head_continue [OF c, of ?a] pa la ra Suc.prems show ?case
    by (simp only: tf) (simp add: take_Suc_conv_app_nth)
qed

lemma run_alone_final:
  assumes idle: "runs s = []"
  shows "runs (exec (replicate (length (getWorkflowSteps (activeWorkflow s))) TimerFires) (handleStart s)) = []
         \<and> \<not> isRunning (exec (replicate (length (getWorkflowSteps (activeWorkflow s))) TimerFires) (handleStart s))
         \<and> stage_starts (logs (exec (replicate (length (getWorkflowSteps (activeWorkflow s))) TimerFires) (handleStart s))) =
             stage_starts (logs s) @ getWorkflowSteps (activeWorkflow s)
         \<and> (0 < length (getWorkflowSteps (activeWorkflow s)) \<longrightarrow>
              progress (exec (replicate (length (getWorkflowSteps (activeWorkflow s))) TimerFires) (handleStart s)) = Num 100)"
proof (cases "length (getWorkflowSteps (activeWorkflow s))")
  case 0
  let ?r = "\<lparr>workflow = activeWorkflow s, steps = getWorkflowSteps (activeWorkflow s), idx = 0\<rparr>"
  from 0 have "\<not> idx ?r < length (steps ?r)"
    by simp
  from loop_head_finish [OF this] idle 0 show ?thesis
    by (simp add: handleStart_def stage_starts_def)
next
  case (Suc j)
  let ?w = "activeWorkflow s"
  let ?st = "getWorkflowSteps ?w"
  let ?sj = "exec (replicate j TimerFires) (handleStart s)"
  let ?r = "\<lparr>workflow = ?w, steps = ?st, idx = j\<rparr>"
  from Suc have jl: "j < length ?st"
    by simp
  from run_alone_state [OF idle jl] have rj: "runs ?sj = [?r]"
    and lj: "stage_starts (logs ?sj) = stage_starts (logs s) @ take (Suc j) ?st"
    by simp_all
  let ?a = "after_await ?r (?sj\<lparr>runs := []\<rparr>)"
  have tf: "exec (replicate (Suc j) TimerFires) (handleStart s) = loop_head (?r\<lparr>idx := idx ?r + 1\<rparr>) ?a"
    by (simp only: exec_ticks_Suc timer_fires_single [OF rj])
  have c: "\<not> idx (?r\<lparr>idx := idx ?r + 1\<rparr>) < length (steps (?r\<lparr>idx := idx ?r + 1\<rparr>))"
    using Suc by simp
  have "of_nat (Suc j) / of_nat (length ?st) = (1::rat)"
    using Suc by simp
  with after_await_progress [of ?r "?sj\<lparr>runs := []\<rparr>"] jl
  have pa: "progress ?a = Num 100"
    by (simp add: fl_1 fl_100)
  have la: "stage_starts (logs ?a) = stage_starts (logs s) @ ?st"
    using lj Suc by (simp add: after_await_stage_starts)
  have ra: "runs ?a = []"
    by (simp add: after_await_runs)
  from loop_head_finish [OF c, of ?a] pa la ra show ?thesis
    by (simp only: Suc tf) simp
qed


text \<open>
  No click takes a suspended call of \<^verbatim>\<open>handleStart\<close> out of flight: only its own timer
  resumes it.
\<close>

lemma clicks_keep_runs_in_flight:
  "runs (dispatch ClickStop s) = runs s"
  "runs (dispatch ClickPause s) = runs s"
  "runs (dispatch ClickReset s) = runs s"
  "runs (dispatch (SelectWorkflow w) s) = runs s"
  by (simp_all add: handleStop_def handlePause_def handleReset_def)

text \<open>
  So a Stop during the wait of a step that is not the last one is followed, when the
  timer fires, by the start of the next step.
\<close>

lemma stop_then_next_step:
  assumes "runs s = r # rest" and "isRunning s" and "idx r + 1 < length (steps r)"
  shows "last (logs (exec [ClickStop, TimerFires] s)) = ''Executing step: '' @ steps r ! (idx r + 1)"
  using assms
  by (simp add: handleStop_def timer_fires_def loop_head_def after_await_def Let_def)

text \<open>While \<^verbatim>\<open>isRunning\<close> is set, the Start button is disabled.\<close>

lemma start_disabled_while_running: "isRunning s \<Longrightarrow> dispatch ClickStart s = s"
  by simp

text \<open>
  The whole effect of a run of one of the six modes, started on an idle dashboard and left
  to finish: every cell of the final state.
\<close>

lemma run_alone_effects:
  assumes w: "w \<in> set workflowModes" and a: "activeWorkflow s = w"
    and i: "\<not> isRunning s" and r: "runs s = []"
  shows "exec (ClickStart # replicate (length (getWorkflowSteps w)) TimerFires) s =
     s\<lparr>isRunning := False, progress := Num 100, currentStep := ''Completed'',
       videosCreated := videosCreated s + count_list (getWorkflowSteps w) ''Create Video'',
       videosUploaded := videosUploaded s + count_list (getWorkflowSteps w) ''Upload to YouTube'',
       logs := logs s @ (''Starting '' @ w @ '' workflow'') #
         concat (map (\<lambda>st. [''Executing step: '' @ st,
                             if st = ''Generate Script'' then ''Script generation completed''
                             else if st = ''Create Video'' then ''Video creation completed''
                             else ''Video upload completed''])
                   (getWorkflowSteps w)),
       toasts := toasts s @ [ToastSuccess (w @ '' workflow completed successfully!'')],
       runs := []\<rparr>"
proof -
  from w have "w = ''full_auto'' \<or> w = ''script_only'' \<or> w = ''video_only''
      \<or> w = ''upload_only'' \<or> w = ''script_and_video'' \<or> w = ''video_and_upload''"
    by (simp add: workflowModes_def)
  then show ?thesis
  proof (elim disjE)
    assume "w = ''full_auto''"
    with a i r show ?thesis
      by (simp add: handleStart_def loop_head_def timer_fires_def after_await_def
          getWorkflowSteps_def Let_def fl_1 fl_100)
  next
    assume "w = ''script_only''"
    with a i r show ?thesis
      by (simp add: handleStart_def loop_head_def timer_fires_def after_await_def
          getWorkflowSteps_def Let_def fl_1 fl_100)
  next
    assume "w = ''video_only''"
    with a i r show ?thesis
      by (simp add: handleStart_def loop_head_def timer_fires_def after_await_def
          getWorkflowSteps_def Let_def fl_1 fl_100)
  next
    assume "w = ''upload_only''"
    with a i r show ?thesis
      by (simp add: handleStart_def loop_head_def timer_fires_def after_await_def
          getWorkflowSteps_def Let_def fl_1 fl_100)
  next
    assume "w = ''script_and_video''"
    with a i r show ?thesis
      by (simp add: handleStart_def loop_head_def timer_fires_def after_await_def
          getWorkflowSteps_def Let_def fl_1 fl_100)
  next
    assume "w = ''video_and_upload''"
    with a i r show ?thesis
      by (simp add: handleStart_def loop_head_def timer_fires_def after_await_def
          getWorkflowSteps_def Let_def fl_1 fl_100)
  qed
qed

text \<open>
  C3. For each of the six modes of the table, a run started from an idle dashboard
  (nothing in flight) and left to finish reports the start of exactly the steps of that
  mode's entry, in the entry's order, and then nothing is left in flight. The run does
  the work of exactly these steps and of no other: the final state is the initial one
  with, for each step of the entry in order, its "Executing step" line followed by its
  completion line appended to the log, \<^verbatim>\<open>videosCreated\<close> raised by one per "Create Video"
  step of the entry, \<^verbatim>\<open>videosUploaded\<close> by one per "Upload to YouTube" step, the progress at
  100, the current step "Completed" and one success toast; nothing else changes. The
  table has six entries, each non-empty and a subsequence of the three steps of
  \<open>full_auto\<close>.
\<close>

theorem workflow_executes_table_entry:
  "w \<in> set workflowModes \<Longrightarrow> activeWorkflow s = w \<Longrightarrow> \<not> isRunning s \<Longrightarrow> runs s = [] \<Longrightarrow>
   stage_starts (logs (exec (ClickStart # replicate (length (getWorkflowSteps w)) TimerFires) s)) =
     stage_starts (logs s) @ getWorkflowSteps w
   \<and> runs (exec (ClickStart # replicate (length (getWorkflowSteps w)) TimerFires) s) = []
   \<and> \<not> isRunning (exec (ClickStart # replicate (length (getWorkflowSteps w)) TimerFires) s)
   \<and> exec (ClickStart # replicate (length (getWorkflowSteps w)) TimerFires) s =
       s\<lparr>isRunning := False, progress := Num 100, currentStep := ''Completed'',
         videosCreated := videosCreated s + count_list (getWorkflowSteps w) ''Create Video'',
         videosUploaded := videosUploaded s + count_list (getWorkflowSteps w) ''Upload to YouTube'',
         logs := logs s @ (''Starting '' @ w @ '' workflow'') #
           concat (map (\<lambda>st. [''Executing step: '' @ st,
                               if st = ''Generate Script'' then ''Script generation completed''
                               else if st = ''Create Video'' then ''Video creation completed''
                               else ''Video upload completed''])
                     (getWorkflowSteps w)),
         toasts := toasts s @ [ToastSuccess (w @ '' workflow completed successfully!'')],
         runs := []\<rparr>
   \<and> length workflowModes = 6
   \<and> getWorkflowSteps w \<noteq> []
   \<and> subseq (getWorkflowSteps w) [''Generate Script'', ''Create Video'', ''Upload to YouTube'']"
proof -
  assume w: "w \<in> set workflowModes" and a: "activeWorkflow s = w"
    and i: "\<not> isRunning s" and r: "runs s = []"
  from run_alone_effects [OF w a i r]
  have eff: "exec (ClickStart # replicate (length (getWorkflowSteps w)) TimerFires) s =
       s\<lparr>isRunning := False, progress := Num 100, currentStep := ''Completed'',
         videosCreated := videosCreated s + count_list (getWorkflowSteps w) ''Create Video'',
         videosUploaded := videosUploaded s + count_list (getWorkflowSteps w) ''Upload to YouTube'',
         logs := logs s @ (''Starting '' @ w @ '' workflow'') #
           concat (map (\<lambda>st. [''Executing step: '' @ st,
                               if st = ''Generate Script'' then ''Script generation completed''
                               else if st = ''Create Video'' then ''Video creation completed''
                               else ''Video upload completed''])
                     (getWorkflowSteps w)),
         toasts := toasts s @ [ToastSuccess (w @ '' workflow completed successfully!'')],
         runs := []\<rparr>" .
  from run_alone_final [OF r] a i
  have "stage_starts (logs (exec (ClickStart # replicate (length (getWorkflowSteps w)) TimerFires) s)) =
     stage_starts (logs s) @ getWorkflowSteps w
   \<and> runs (exec (ClickStart # replicate (length (getWorkflowSteps w)) TimerFires) s) = []
   \<and> \<not> isRunning (exec (ClickStart # replicate (length (getWorkflowSteps w)) TimerFires) s)"
    by simp
  moreover have "length workflowModes = 6"
    by (simp add: workflowModes_def)
  moreover from w have "getWorkflowSteps w \<noteq> []"
    by (auto simp: workflowModes_def getWorkflowSteps_def)
  moreover from w have "subseq (getWorkflowSteps w) [''Generate Script'', ''Create Video'', ''Upload to YouTube'']"
    by (auto simp: workflowModes_def getWorkflowSteps_def)
  moreover note eff
  ultimately show ?thesis
    by blast
qed

theorem workflow_executes_table_entry_witness:
  "''video_and_upload'' \<in> set workflowModes
   \<and> activeWorkflow (dashboard_init\<lparr>activeWorkflow := ''video_and_upload''\<rparr>) = ''video_and_upload''
   \<and> \<not> isRunning (dashboard_init\<lparr>activeWorkflow := ''video_and_upload''\<rparr>)
   \<and> runs (dashboard_init\<lparr>activeWorkflow := ''video_and_upload''\<rparr>) = []
   \<and> stage_starts (logs (exec [ClickStart, TimerFires, TimerFires]
         (dashboard_init\<lparr>activeWorkflow := ''video_and_upload''\<rparr>))) =
       [''Create Video'', ''Upload to YouTube'']
   \<and> exec [ClickStart, TimerFires, TimerFires]
         (dashboard_init\<lparr>activeWorkflow := ''video_and_upload''\<rparr>) =
       \<lparr>isRunning = False, progress = Num 100, currentStep = ''Completed'',
        videosCreated = 1, videosUploaded = 1, activeWorkflow = ''video_and_upload'',
        logs = [''Starting video_and_upload workflow'',
                ''Executing step: Create Video'', ''Video creation completed'',
                ''Executing step: Upload to YouTube'', ''Video upload completed''],
        toasts = [ToastSuccess ''video_and_upload workflow completed successfully!''],
        runs = []\<rparr>"
  using workflow_executes_table_entry
    [of "''video_and_upload''" "dashboard_init\<lparr>activeWorkflow := ''video_and_upload''\<rparr>"]
  by (simp add: workflowModes_def dashboard_init_def getWorkflowSteps_def stage_starts_def)

text \<open>
  C6. In a run of \<open>m\<close> steps started from an idle dashboard, the progress published when
  the \<open>i\<close>-th step completes (\<open>1 \<le> i \<le> m\<close>) is \<^verbatim>\<open>(i / m) * 100\<close> evaluated in double
  arithmetic, a finite number within \<open>2^-45\<close> of the exact percentage \<open>100 i / m\<close>, and
  after the last step it is exactly 100.
\<close>

theorem progress_after_each_stage:
  "runs s = [] \<Longrightarrow> \<not> isRunning s \<Longrightarrow> m = length (getWorkflowSteps (activeWorkflow s)) \<Longrightarrow>
   1 \<le> i \<Longrightarrow> i \<le> m \<Longrightarrow>
   progress (exec (ClickStart # replicate i TimerFires) s) =
     js_mul (js_div (Num (of_nat i)) (Num (of_nat m))) (Num 100)
   \<and> progress (exec (ClickStart # replicate i TimerFires) s) =
     Num (fl (fl (of_nat i / of_nat m) * 100))
   \<and> (\<exists>p. progress (exec (ClickStart # replicate i TimerFires) s) = Num p
          \<and> \<bar>p - 100 * of_nat i / of_nat m\<bar> \<le> 1 / 2 ^ 45)
   \<and> progress (exec (ClickStart # replicate m TimerFires) s) = Num 100"
proof -
  assume r: "runs s = []" and n: "\<not> isRunning s"
    and m: "m = length (getWorkflowSteps (activeWorkflow s))" and i: "1 \<le> i" "i \<le> m"
  from i m have pos: "0 < length (getWorkflowSteps (activeWorkflow s))"
    by linarith
  with run_alone_final [OF r] n m
  have last: "progress (exec (ClickStart # replicate m TimerFires) s) = Num 100"
    by simp
  have val: "progress (exec (ClickStart # replicate i TimerFires) s) =
     Num (fl (fl (of_nat i / of_nat m) * 100))"
  proof (cases "i < m")
    case True
    with run_alone_state [OF r, of i] m i n show ?thesis
      by simp
  next
    case False
    with i have "i = m"
      by simp
    with last pos m show ?thesis
      by (simp add: fl_1 fl_100)
  qed
  from pos m have js: "js_mul (js_div (Num (of_nat i)) (Num (of_nat m))) (Num 100) =
     Num (fl (fl (of_nat i / of_nat m) * 100))"
    by simp
  from percent_error [of i m] i
  have "\<bar>fl (fl (of_nat i / of_nat m) * 100) - 100 * of_nat i / of_nat m\<bar> \<le> 1 / 2 ^ 45"
    by simp
  with val have near: "\<exists>p. progress (exec (ClickStart # replicate i TimerFires) s) = Num p
          \<and> \<bar>p - 100 * of_nat i / of_nat m\<bar> \<le> 1 / 2 ^ 45"
    by blast
  from val js have "progress (exec (ClickStart # replicate i TimerFires) s) =
     js_mul (js_div (Num (of_nat i)) (Num (of_nat m))) (Num 100)"
    by simp
  with val near last show ?thesis
    by blast
qed

theorem progress_after_each_stage_witness:
  "runs dashboard_init = [] \<and> \<not> isRunning dashboard_init
   \<and> 3 = length (getWorkflowSteps (activeWorkflow dashboard_init))
   \<and> (1::nat) \<le> 2 \<and> (2::nat) \<le> 3
   \<and> progress (exec [ClickStart, TimerFires, TimerFires] dashboard_init) =
       Num (fl (fl (2 / 3) * 100))
   \<and> progress (exec [ClickStart, TimerFires, TimerFires, TimerFires] dashboard_init) = Num 100"
  using progress_after_each_stage [of dashboard_init 3 2]
  by (simp add: dashboard_init_def getWorkflowSteps_def numeral_3_eq_3 numeral_2_eq_2)

text \<open>
  C2. A Stop is not honoured by the running loop. On the initial dashboard (mode
  \<open>full_auto\<close>): Start, then Stop while the first step waits, then the timer of that step
  fires. The log shows the start of the next stage after "Workflow stopped".
\<close>

theorem stage_starts_after_stop:
  "logs (exec [ClickStart, ClickStop, TimerFires] dashboard_init) =
     [''Starting full_auto workflow'', ''Executing step: Generate Script'',
      ''Workflow stopped'', ''Script generation completed'',
      ''Executing step: Create Video'']"
  by (simp add: dashboard_init_def handleStart_def handleStop_def loop_head_def
      timer_fires_def after_await_def getWorkflowSteps_def Let_def)

text \<open>
  C7. Two runs can be in flight together. Stop (or Pause) clears \<^verbatim>\<open>isRunning\<close> and so
  enables Start while the stopped loop is still suspended on its timer: after Start, Stop,
  Start two calls of \<^verbatim>\<open>handleStart\<close> are in flight, and their steps interleave.
\<close>

theorem two_runs_in_flight:
  "runs (exec [ClickStart, ClickStop, ClickStart] dashboard_init) =
     [\<lparr>workflow = ''full_auto'',
       steps = [''Generate Script'', ''Create Video'', ''Upload to YouTube''], idx = 0\<rparr>,
      \<lparr>workflow = ''full_auto'',
       steps = [''Generate Script'', ''Create Video'', ''Upload to YouTube''], idx = 0\<rparr>]
   \<and> isRunning (exec [ClickStart, ClickStop, ClickStart] dashboard_init)
   \<and> stage_starts (logs (exec [ClickStart, ClickStop, ClickStart, TimerFires, TimerFires] dashboard_init)) =
       [''Generate Script'', ''Generate Script'', ''Create Video'', ''Create Video'']"
  by (simp add: dashboard_init_def handleStart_def handleStop_def loop_head_def
      timer_fires_def after_await_def getWorkflowSteps_def Let_def stage_starts_def)


section \<open>Properties of the upload\<close>

lemma upload_loop_keeps:
  "videoFile (upload_loop sts i n s) = videoFile s
   \<and> uploadDetails (upload_loop sts i n s) = uploadDetails s
   \<and> scheduleSettings (upload_loop sts i n s) = scheduleSettings s
   \<and> isUploading (upload_loop sts i n s) = isUploading s
   \<and> uploadedVideos (upload_loop sts i n s) = uploadedVideos s
   \<and> utoasts (upload_loop sts i n s) = utoasts s"
  by (induction sts i n s rule: upload_loop.induct) simp_all

text \<open>
  C1 as stated fails: the initial history holds a record titled "AI Productivity Tips";
  an upload under the same title adds a second record with that title.
\<close>

theorem duplicate_upload_counterexample:
  "''AI Productivity Tips'' \<in> set (map title_v (uploadedVideos upload_init))
   \<and> map title_v (uploadedVideos
         (handleUpload \<lparr>now = 1700000000000, localeString = ''1/15/2024, 3:00:00 PM'',
                        dateString = ''Mon Jan 15 2024''\<rparr>
            (upload_init\<lparr>videoFile := Some \<lparr>file_name = ''tips.mp4''\<rparr>,
               uploadDetails := empty_details\<lparr>title := ''AI Productivity Tips''\<rparr>\<rparr>))) =
       [''AI Productivity Tips'', ''AI Productivity Tips'', ''Future of Technology'']"
  by (simp add: upload_init_def handleUpload_def newVideo_def empty_details_def
      upload_loop_keeps trim_def is_ws_def Let_def)

text \<open>
  C1, amended. \<^verbatim>\<open>handleUpload\<close> has no duplicate check: whenever a video file is selected
  and the title is not blank, it puts exactly one new record (id from the clock, title as
  entered) in front of the history, whatever the history already holds, and keeps every
  earlier record.
\<close>

theorem upload_always_prepends_record:
  "videoFile s \<noteq> None \<Longrightarrow> trim (title (uploadDetails s)) \<noteq> [] \<Longrightarrow>
   uploadedVideos (handleUpload clk s) = newVideo clk s # uploadedVideos s
   \<and> id_v (newVideo clk s) = ''vid_'' @ show_nat (now clk)
   \<and> title_v (newVideo clk s) = title (uploadDetails s)"
  by (simp add: handleUpload_def Let_def upload_loop_keeps newVideo_def)

theorem upload_always_prepends_record_witness:
  "videoFile (upload_init\<lparr>videoFile := Some \<lparr>file_name = ''tips.mp4''\<rparr>,
       uploadDetails := empty_details\<lparr>title := ''AI Productivity Tips''\<rparr>\<rparr>) \<noteq> None
   \<and> trim ''AI Productivity Tips'' \<noteq> []
   \<and> length (uploadedVideos
         (handleUpload \<lparr>now = 1700000000000, localeString = ''1/15/2024, 3:00:00 PM'',
                        dateString = ''Mon Jan 15 2024''\<rparr>
            (upload_init\<lparr>videoFile := Some \<lparr>file_name = ''tips.mp4''\<rparr>,
               uploadDetails := empty_details\<lparr>title := ''AI Productivity Tips''\<rparr>\<rparr>))) = 3"
  using upload_always_prepends_record
    [of "upload_init\<lparr>videoFile := Some \<lparr>file_name = ''tips.mp4''\<rparr>,
           uploadDetails := empty_details\<lparr>title := ''AI Productivity Tips''\<rparr>\<rparr>"
        "\<lparr>now = 1700000000000, localeString = ''1/15/2024, 3:00:00 PM'',
          dateString = ''Mon Jan 15 2024''\<rparr>"]
  by (simp add: upload_init_def empty_details_def trim_def is_ws_def)

text \<open>
  C9. A failed validation is atomic. With no video file selected, or with a title that is
  empty after trimming, \<^verbatim>\<open>handleUpload\<close> only raises an error toast: the history, the
  progress, the uploading flag, the selected file, the form fields, the schedule settings
  and the log are as before.
\<close>

theorem upload_validation_failure_atomic:
  "videoFile s = None \<or> trim (title (uploadDetails s)) = [] \<Longrightarrow>
   handleUpload clk s =
     s\<lparr>utoasts := utoasts s @
        [ToastError (if videoFile s = None then ''Please select a video file first''
                     else ''Please enter a video title'')]\<rparr>
   \<and> uploadedVideos (handleUpload clk s) = uploadedVideos s
   \<and> uploadProgress (handleUpload clk s) = uploadProgress s
   \<and> isUploading (handleUpload clk s) = isUploading s
   \<and> videoFile (handleUpload clk s) = videoFile s
   \<and> uploadDetails (handleUpload clk s) = uploadDetails s
   \<and> scheduleSettings (handleUpload clk s) = scheduleSettings s
   \<and> ulogs (handleUpload clk s) = ulogs s"
  by (auto simp: handleUpload_def)

theorem upload_validation_failure_atomic_witness:
  "videoFile upload_init = None
   \<and> handleUpload \<lparr>now = 1700000000000, localeString = ''1/15/2024, 3:00:00 PM'',
                     dateString = ''Mon Jan 15 2024''\<rparr> upload_init =
       upload_init\<lparr>utoasts := [ToastError ''Please select a video file first'']\<rparr>
   \<and> trim (title (uploadDetails
         (upload_init\<lparr>videoFile := Some \<lparr>file_name = ''tips.mp4''\<rparr>,
            uploadDetails := empty_details\<lparr>title := ''   ''\<rparr>\<rparr>))) = []
   \<and> handleUpload \<lparr>now = 1700000000000, localeString = ''1/15/2024, 3:00:00 PM'',
                     dateString = ''Mon Jan 15 2024''\<rparr>
         (upload_init\<lparr>videoFile := Some \<lparr>file_name = ''tips.mp4''\<rparr>,
            uploadDetails := empty_details\<lparr>title := ''   ''\<rparr>\<rparr>) =
       upload_init\<lparr>videoFile := Some \<lparr>file_name = ''tips.mp4''\<rparr>,
         uploadDetails := empty_details\<lparr>title := ''   ''\<rparr>,
         utoasts := [ToastError ''Please enter a video title'']\<rparr>"
  using upload_validation_failure_atomic
    [of upload_init
        "\<lparr>now = 1700000000000, localeString = ''1/15/2024, 3:00:00 PM'',
          dateString = ''Mon Jan 15 2024''\<rparr>"]
    upload_validation_failure_atomic
    [of "upload_init\<lparr>videoFile := Some \<lparr>file_name = ''tips.mp4''\<rparr>,
           uploadDetails := empty_details\<lparr>title := ''   ''\<rparr>\<rparr>"
        "\<lparr>now = 1700000000000, localeString = ''1/15/2024, 3:00:00 PM'',
          dateString = ''Mon Jan 15 2024''\<rparr>"]
  by (simp add: upload_init_def empty_details_def trim_def is_ws_def)

section \<open>Properties of the retry loop and of the element locator\<close>

lemma retry_from_props:
  "fst (snd (retry_from left attempt operation classify baseDelay cap jitter)) \<le> left
   \<and> (\<forall>a. attempt \<le> a
          \<and> a < attempt + (fst (snd (retry_from left attempt operation classify baseDelay cap jitter)) - 1)
        \<longrightarrow> (\<exists>e. operation a = Failure e \<and> classify e = RetryableFailure))
   \<and> fst (snd (snd (retry_from left attempt operation classify baseDelay cap jitter))) =
       map (backoff_delay baseDelay cap)
         [attempt ..< attempt + (fst (snd (retry_from left attempt operation classify baseDelay cap jitter)) - 1)]"
proof (induction left arbitrary: attempt)
  case 0
  show ?case by auto
next
  case (Suc left)
  show ?case
  proof (cases "operation attempt")
    case (Success v)
    then show ?thesis by auto
  next
    case (Failure e)
    show ?thesis
    proof (cases "classify e")
      case FatalFailure
      with Failure show ?thesis by auto
    next
      case RetryableFailure
      show ?thesis
      proof (cases "left = 0")
        case True
        with Failure RetryableFailure show ?thesis by auto
      next
        case False
        obtain r n ds ws where rec:
          "retry_from left (attempt + 1) operation classify baseDelay cap jitter = (r, n, ds, ws)"
          by (cases "retry_from left (attempt + 1) operation classify baseDelay cap jitter") auto
        note ih = Suc.IH [of "attempt + 1", unfolded rec fst_conv snd_conv]
        from ih have n: "n \<le> left"
          and f: "\<forall>a. attempt + 1 \<le> a \<and> a < attempt + 1 + (n - 1)
                \<longrightarrow> (\<exists>e. operation a = Failure e \<and> classify e = RetryableFailure)"
          and d: "ds = map (backoff_delay baseDelay cap) [attempt + 1 ..< attempt + 1 + (n - 1)]"
          by blast+
        from False Failure RetryableFailure rec
        have unf: "retry_from (Suc left) attempt operation classify baseDelay cap jitter =
            (r, n + 1, backoff_delay baseDelay cap attempt # ds,
             (backoff_delay baseDelay cap attempt + jitter attempt) # ws)"
          by (simp add: Let_def)
        have pos: "0 < n"
        proof (cases left)
          case 0
          with False show ?thesis by simp
        next
          case (Suc l)
          with rec show ?thesis
            by (auto simp: Let_def split: attempt_outcome.splits failure_class.splits if_splits prod.splits)
        qed
        have a1: "fst (snd (retry_from (Suc left) attempt operation classify baseDelay cap jitter)) \<le> Suc left"
          using n unf by simp
        have a2: "\<forall>a. attempt \<le> a
              \<and> a < attempt + (fst (snd (retry_from (Suc left) attempt operation classify baseDelay cap jitter)) - 1)
            \<longrightarrow> (\<exists>e. operation a = Failure e \<and> classify e = RetryableFailure)"
        proof (intro allI impI)
          fix a
          assume h: "attempt \<le> a
              \<and> a < attempt + (fst (snd (retry_from (Suc left) attempt operation classify baseDelay cap jitter)) - 1)"
          show "\<exists>e. operation a = Failure e \<and> classify e = RetryableFailure"
          proof (cases "a = attempt")
            case True
            with Failure RetryableFailure show ?thesis by auto
          next
            case False
            with h unf pos have "attempt + 1 \<le> a \<and> a < attempt + 1 + (n - 1)"
              by simp
            with f show ?thesis by blast
          qed
        qed
        have "[attempt ..< attempt + n] = attempt # [attempt + 1 ..< attempt + 1 + (n - 1)]"
          using pos by (simp add: upt_rec [of attempt "attempt + n"])
        with d unf
        have a3: "fst (snd (snd (retry_from (Suc left) attempt operation classify baseDelay cap jitter))) =
            map (backoff_delay baseDelay cap)
              [attempt ..< attempt + (fst (snd (retry_from (Suc left) attempt operation classify baseDelay cap jitter)) - 1)]"
          by simp
        from a1 a2 a3 show ?thesis
          by blast
      qed
    qed
  qed
qed

text \<open>A run that ends on a fatal failure ends at the attempt that failed fatally.\<close>

lemma retry_from_aborted:
  "fst (retry_from left attempt operation classify baseDelay cap jitter) = Aborted e \<Longrightarrow>
   operation (attempt + (fst (snd (retry_from left attempt operation classify baseDelay cap jitter)) - 1)) = Failure e
   \<and> classify e = FatalFailure"
proof (induction left arbitrary: attempt)
  case 0
  then show ?case by simp
next
  case (Suc left)
  show ?case
  proof (cases "operation attempt")
    case (Success v)
    with Suc.prems show ?thesis by simp
  next
    case (Failure e')
    show ?thesis
    proof (cases "classify e'")
      case FatalFailure
      with Failure Suc.prems show ?thesis by simp
    next
      case RetryableFailure
      show ?thesis
      proof (cases "left = 0")
        case True
        with Failure RetryableFailure Suc.prems show ?thesis by simp
      next
        case False
        obtain r n ds ws where rec:
          "retry_from left (attempt + 1) operation classify baseDelay cap jitter = (r, n, ds, ws)"
          by (cases "retry_from left (attempt + 1) operation classify baseDelay cap jitter") auto
        from False Failure RetryableFailure rec
        have unf: "retry_from (Suc left) attempt operation classify baseDelay cap jitter =
            (r, n + 1, backoff_delay baseDelay cap attempt # ds,
             (backoff_delay baseDelay cap attempt + jitter attempt) # ws)"
          by (simp add: Let_def)
        with Suc.prems have "r = Aborted e"
          by simp
        with Suc.IH [of "attempt + 1"] rec
        have ih: "operation (attempt + 1 + (n - 1)) = Failure e \<and> classify e = FatalFailure"
          by (simp del: One_nat_def)
        have pos: "0 < n"
        proof (cases left)
          case 0
          with False show ?thesis by simp
        next
          case (Suc l)
          with rec show ?thesis
            by (auto simp: Let_def split: attempt_outcome.splits failure_class.splits if_splits prod.splits)
        qed
        with ih unf show ?thesis
          by simp
      qed
    qed
  qed
qed

text \<open>
  C4. \<^verbatim>\<open>RetryPolicy.Run\<close> with \<open>maxAttempts = k\<close> makes at most \<open>k\<close> attempts. Every
  attempt that was followed by another one was a failure classified retryable, so a fatal
  failure is the last attempt of its run, whatever budget remains; a run that reports a
  fatal failure stopped at the attempt that raised it. The delay computed before retry
  number \<open>a\<close> (after attempt \<open>a\<close>) is \<open>baseDelay * 2^(a-1)\<close>, capped.
\<close>

theorem retry_policy_bounded_backoff:
  "run_attempts (Run operation classify k baseDelay cap jitter) \<le> k
   \<and> (\<forall>a. 1 \<le> a \<and> a < run_attempts (Run operation classify k baseDelay cap jitter)
        \<longrightarrow> (\<exists>e. operation a = Failure e \<and> classify e = RetryableFailure))
   \<and> (\<forall>e. run_result (Run operation classify k baseDelay cap jitter) = Aborted e
        \<longrightarrow> operation (run_attempts (Run operation classify k baseDelay cap jitter)) = Failure e
            \<and> classify e = FatalFailure)
   \<and> run_delays (Run operation classify k baseDelay cap jitter) =
       map (\<lambda>a. min cap (baseDelay * 2 ^ (a - 1)))
         [1 ..< run_attempts (Run operation classify k baseDelay cap jitter)]"
proof -
  let ?R = "retry_from k 1 operation classify baseDelay cap jitter"
  let ?n = "fst (snd ?R)"
  from retry_from_props [of k 1 operation classify baseDelay cap jitter]
  have b: "?n \<le> k"
    and f: "\<forall>a. 1 \<le> a \<and> a < 1 + (?n - 1) \<longrightarrow> (\<exists>e. operation a = Failure e \<and> classify e = RetryableFailure)"
    and d: "fst (snd (snd ?R)) = map (backoff_delay baseDelay cap) [1 ..< 1 + (?n - 1)]"
    by blast+
  have up: "[1 ..< 1 + (?n - 1)] = [1 ..< ?n]"
    by (cases ?n) simp_all
  have c1: "run_attempts (Run operation classify k baseDelay cap jitter) \<le> k"
    using b by (simp add: run_attempts_def Run_def)
  have c2: "\<forall>a. 1 \<le> a \<and> a < run_attempts (Run operation classify k baseDelay cap jitter)
        \<longrightarrow> (\<exists>e. operation a = Failure e \<and> classify e = RetryableFailure)"
    using f by (auto simp: run_attempts_def Run_def)
  have c3: "\<forall>e. run_result (Run operation classify k baseDelay cap jitter) = Aborted e
        \<longrightarrow> operation (run_attempts (Run operation classify k baseDelay cap jitter)) = Failure e
            \<and> classify e = FatalFailure"
  proof (intro allI impI)
    fix e
    assume ab: "run_result (Run operation classify k baseDelay cap jitter) = Aborted e"
    then have ab': "fst ?R = Aborted e"
      by (simp add: run_result_def Run_def)
    have "0 < ?n"
      using ab' by (cases k) (auto simp: Let_def split: attempt_outcome.splits failure_class.splits if_splits prod.splits)
    with retry_from_aborted [OF ab'] show "operation (run_attempts (Run operation classify k baseDelay cap jitter)) = Failure e
            \<and> classify e = FatalFailure"
      by (simp add: run_attempts_def Run_def)
  qed
  have "backoff_delay baseDelay cap = (\<lambda>a. min cap (baseDelay * 2 ^ (a - 1)))"
    by (rule ext) (simp add: backoff_delay_def)
  with d up
  have c4: "run_delays (Run operation classify k baseDelay cap jitter) =
       map (\<lambda>a. min cap (baseDelay * 2 ^ (a - 1)))
         [1 ..< run_attempts (Run operation classify k baseDelay cap jitter)]"
    by (simp add: run_delays_def run_attempts_def Run_def)
  from c1 c2 c3 c4 show ?thesis
    by blast
qed

theorem retry_policy_bounded_backoff_witness:
  "Run (\<lambda>a. if a < 3 then Failure ''timeout'' else Success (42::nat))
       (\<lambda>e. if e = ''invalid credential'' then FatalFailure else RetryableFailure)
       retryAttempts 1000 30000 (\<lambda>a. 0) =
     (Succeeded 42, 3, [1000, 2000], [1000, 2000])
   \<and> (1::nat) \<le> 2
   \<and> 2 < run_attempts
       (Run (\<lambda>a. if a < 3 then Failure ''timeout'' else Success (42::nat))
         (\<lambda>e. if e = ''invalid credential'' then FatalFailure else RetryableFailure)
         retryAttempts 1000 30000 (\<lambda>a. 0))
   \<and> Run (\<lambda>a. if a < 2 then Failure ''timeout'' else (Failure ''invalid credential'' :: (nat, string) attempt_outcome))
       (\<lambda>e. if e = ''invalid credential'' then FatalFailure else RetryableFailure)
       retryAttempts 1000 30000 (\<lambda>a. 0) =
     (Aborted ''invalid credential'', 2, [1000], [1000])
   \<and> Run (\<lambda>a. (Failure ''timeout'' :: (nat, string) attempt_outcome))
       (\<lambda>e. if e = ''invalid credential'' then FatalFailure else RetryableFailure)
       retryAttempts 10000 30000 (\<lambda>a. 0) =
     (Exhausted (Some ''timeout''), 3, [10000, 20000], [10000, 20000])"
proof -
  let ?cl = "\<lambda>e. if e = ''invalid credential'' then FatalFailure else RetryableFailure"
  let ?op1 = "\<lambda>a::nat. if a < 3 then Failure ''timeout'' else Success (42::nat)"
  let ?op2 = "\<lambda>a::nat. if a < 2 then Failure ''timeout'' else (Failure ''invalid credential'' :: (nat, string) attempt_outcome)"
  let ?op3 = "\<lambda>a::nat. (Failure ''timeout'' :: (nat, string) attempt_outcome)"
  have v1: "Run ?op1 ?cl retryAttempts 1000 30000 (\<lambda>a. 0) = (Succeeded 42, 3, [1000, 2000], [1000, 2000])"
    by (simp add: Run_def retryAttempts_def numeral_3_eq_3 backoff_delay_def)
  have v2: "Run ?op2 ?cl retryAttempts 1000 30000 (\<lambda>a. 0) = (Aborted ''invalid credential'', 2, [1000], [1000])"
    by (simp add: Run_def retryAttempts_def numeral_3_eq_3 backoff_delay_def)
  have v3: "Run ?op3 ?cl retryAttempts 10000 30000 (\<lambda>a. 0) =
      (Exhausted (Some ''timeout''), 3, [10000, 20000], [10000, 20000])"
    by (simp add: Run_def retryAttempts_def numeral_3_eq_3 backoff_delay_def)
  from retry_policy_bounded_backoff [of ?op1 ?cl retryAttempts 1000 30000 "\<lambda>a. 0"]
  have "run_attempts (Run ?op1 ?cl retryAttempts 1000 30000 (\<lambda>a. 0)) \<le> retryAttempts"
    by blast
  moreover have "2 < run_attempts (Run ?op1 ?cl retryAttempts 1000 30000 (\<lambda>a. 0))"
    by (simp add: v1 run_attempts_def)
  ultimately show ?thesis
    using v1 v2 v3 by simp
qed

lemma try_candidates_closed_form:
  "try_candidates poll t cs =
     (case dropWhile (\<lambda>c. poll c t = None) cs of
        [] \<Rightarrow> Inl ElementNotFound
      | c # rest \<Rightarrow> Inr (the (poll c t)),
      takeWhile (\<lambda>c. poll c t = None) cs @ take 1 (dropWhile (\<lambda>c. poll c t = None) cs))"
  by (induction cs) (auto split: option.splits prod.splits list.splits)

lemma try_candidates_first_match:
  "(\<forall>x \<in> set pre. poll x t = None) \<Longrightarrow> poll c t = Some h \<Longrightarrow>
   try_candidates poll t (pre @ c # post) = (Inr h, pre @ [c])"
  by (induction pre) simp_all

lemma try_candidates_no_match:
  "(\<forall>x \<in> set cs. poll x t = None) \<Longrightarrow> try_candidates poll t cs = (Inl ElementNotFound, cs)"
  by (induction cs) simp_all

lemma resolve_returns_first_match:
  "(\<forall>x \<in> set pre. poll x t = None) \<Longrightarrow> poll c t = Some h \<Longrightarrow>
   Resolve poll (pre @ c # post) t = (Inr h, pre @ [c])"
  by (simp add: Resolve_def try_candidates_first_match)

lemma resolve_some_match:
  assumes "\<exists>c \<in> set cs. poll c t \<noteq> None"
  shows "\<exists>pre c post h. cs = pre @ c # post \<and> (\<forall>x \<in> set pre. poll x t = None)
           \<and> poll c t = Some h \<and> Resolve poll cs t = (Inr h, pre @ [c])"
proof -
  from assms obtain pre c post where cs: "cs = pre @ c # post"
    and pre: "\<forall>x \<in> set pre. poll x t = None" and c: "poll c t \<noteq> None"
    using split_list_first_prop [of cs "\<lambda>c. poll c t \<noteq> None"] by auto
  from c obtain h where h: "poll c t = Some h"
    by auto
  from pre h have "Resolve poll (pre @ c # post) t = (Inr h, pre @ [c])"
    by (rule resolve_returns_first_match)
  with cs pre h show ?thesis
    by blast
qed

lemma resolve_no_match:
  "cs \<noteq> [] \<Longrightarrow> (\<forall>x \<in> set cs. poll x t = None) \<Longrightarrow>
   Resolve poll cs t = (Inl ElementNotFound, cs)"
  by (simp add: Resolve_def try_candidates_no_match)

text \<open>
  C5. \<^verbatim>\<open>ElementLocator.Resolve\<close> on a candidate list of length \<open>n\<close> polls at most \<open>n\<close>
  candidates, and the ones it polls are an initial stretch of the list, in the list's
  order. If it returns a handle, the polled candidates are those before the first one
  that matches, then that one, whose handle is returned; nothing after it is polled. If
  it reports that no element was found, every candidate was polled and none matched. On
  the empty list it reports a configuration error and polls nothing. Whenever some
  candidate matches, a handle is returned: that of the first candidate in list order that
  matches, after polling exactly the candidates up to and including it. On a non-empty
  list of which no candidate matches, the result is "element not found" after polling the
  whole list.
\<close>

theorem resolve_first_success:
  "length (snd (Resolve poll cs t)) \<le> length cs
   \<and> prefix (snd (Resolve poll cs t)) cs
   \<and> (\<forall>h. fst (Resolve poll cs t) = Inr h \<longrightarrow>
        (\<exists>c. snd (Resolve poll cs t) = takeWhile (\<lambda>c. poll c t = None) cs @ [c]
             \<and> poll c t = Some h))
   \<and> (fst (Resolve poll cs t) = Inl ElementNotFound \<longrightarrow>
        snd (Resolve poll cs t) = cs \<and> (\<forall>c \<in> set cs. poll c t = None))
   \<and> Resolve poll [] t = (Inl ConfigurationError, [])
   \<and> (((\<exists>c \<in> set cs. poll c t \<noteq> None) \<longrightarrow>
        (\<exists>pre c post h. cs = pre @ c # post \<and> (\<forall>x \<in> set pre. poll x t = None)
           \<and> poll c t = Some h \<and> Resolve poll cs t = (Inr h, pre @ [c])))
   \<and> (cs \<noteq> [] \<and> (\<forall>c \<in> set cs. poll c t = None) \<longrightarrow>
        Resolve poll cs t = (Inl ElementNotFound, cs)))"
proof -
  let ?P = "\<lambda>c. poll c t = None"
  have split: "cs = takeWhile ?P cs @ dropWhile ?P cs"
    by simp
  have pre: "prefix (takeWhile ?P cs @ take 1 (dropWhile ?P cs)) cs"
  proof -
    have "prefix (takeWhile ?P cs @ take 1 (dropWhile ?P cs)) (takeWhile ?P cs @ dropWhile ?P cs)"
      by (simp only: same_prefix_prefix take_is_prefix)
    then show ?thesis by simp
  qed
  have c2: "prefix (snd (Resolve poll cs t)) cs"
    using pre by (simp add: Resolve_def try_candidates_closed_form)
  from c2 have c1: "length (snd (Resolve poll cs t)) \<le> length cs"
    by (rule prefix_length_le)
  have c3: "\<forall>h. fst (Resolve poll cs t) = Inr h \<longrightarrow>
        (\<exists>c. snd (Resolve poll cs t) = takeWhile ?P cs @ [c] \<and> poll c t = Some h)"
  proof (intro allI impI)
    fix h
    assume ok: "fst (Resolve poll cs t) = Inr h"
    then obtain c rest where dw: "dropWhile ?P cs = c # rest" and h: "h = the (poll c t)"
      by (auto simp: Resolve_def try_candidates_closed_form split: if_splits list.splits)
    from dw have "\<not> ?P c"
      using hd_dropWhile [of ?P cs] by simp
    with h have "poll c t = Some h"
      by auto
    moreover from ok dw have "snd (Resolve poll cs t) = takeWhile ?P cs @ [c]"
      by (auto simp: Resolve_def try_candidates_closed_form split: if_splits)
    ultimately show "\<exists>c. snd (Resolve poll cs t) = takeWhile ?P cs @ [c] \<and> poll c t = Some h"
      by blast
  qed
  have c4: "fst (Resolve poll cs t) = Inl ElementNotFound \<longrightarrow>
        snd (Resolve poll cs t) = cs \<and> (\<forall>c \<in> set cs. poll c t = None)"
  proof
    assume nf: "fst (Resolve poll cs t) = Inl ElementNotFound"
    then have dw: "dropWhile ?P cs = []"
      by (auto simp: Resolve_def try_candidates_closed_form split: if_splits list.splits)
    then have all: "\<forall>c \<in> set cs. poll c t = None"
      by (simp add: dropWhile_eq_Nil_conv)
    then have tw: "takeWhile ?P cs = cs"
      by (simp add: takeWhile_eq_all_conv)
    have "snd (try_candidates poll t cs) = takeWhile ?P cs @ take 1 (dropWhile ?P cs)"
      by (simp add: try_candidates_closed_form)
    also have "\<dots> = cs"
      by (simp only: dw tw take.simps append_Nil2)
    finally have "snd (Resolve poll cs t) = cs"
      by (simp add: Resolve_def)
    with all show "snd (Resolve poll cs t) = cs \<and> (\<forall>c \<in> set cs. poll c t = None)"
      by blast
  qed
  have c5: "Resolve poll [] t = (Inl ConfigurationError, [])"
    by (simp add: Resolve_def)
  have c6: "(\<exists>c \<in> set cs. poll c t \<noteq> None) \<longrightarrow>
        (\<exists>pre c post h. cs = pre @ c # post \<and> (\<forall>x \<in> set pre. poll x t = None)
           \<and> poll c t = Some h \<and> Resolve poll cs t = (Inr h, pre @ [c]))"
    using resolve_some_match [of cs poll t] by blast
  have c7: "cs \<noteq> [] \<and> (\<forall>c \<in> set cs. poll c t = None) \<longrightarrow>
        Resolve poll cs t = (Inl ElementNotFound, cs)"
    using resolve_no_match [of cs poll t] by blast
  from c1 c2 c3 c4 c5 c6 c7 show ?thesis
    by blast
qed

theorem resolve_first_success_witness:
  "Resolve (\<lambda>c t. if c = ''.generate-btn'' then Some (7::nat) else None)
       [''#generate'', ''.generate-btn''] 10 =
     (Inr 7, [''#generate'', ''.generate-btn''])
   \<and> fst (Resolve (\<lambda>c t. if c = ''.generate-btn'' then Some (7::nat) else None)
       capcut_generateButton 10) = Inr 7
   \<and> snd (Resolve (\<lambda>c t. if c = ''.generate-btn'' then Some (7::nat) else None)
       capcut_generateButton 10) = [''#generate'', ''.generate-btn'']
   \<and> fst (Resolve (\<lambda>c t. (None :: nat option)) capcut_generateButton 10) = Inl ElementNotFound
   \<and> snd (Resolve (\<lambda>c t. (None :: nat option)) capcut_generateButton 10) =
       [''#generate'', ''.generate-btn'', ''.ai-generate'']
   \<and> capcut_generateButton \<noteq> []
   \<and> Resolve (\<lambda>c t. (None :: nat option)) capcut_generateButton 10 =
       (Inl ElementNotFound, capcut_generateButton)
   \<and> (\<exists>h. fst (Resolve (\<lambda>c t. if c = ''.generate-btn'' then Some (7::nat) else None)
       capcut_generateButton 10) = Inr h)"
proof -
  let ?page = "\<lambda>(c::string) (t::nat). if c = ''.generate-btn'' then Some (7::nat) else None"
  let ?blank = "\<lambda>(c::string) (t::nat). (None :: nat option)"
  have v1: "Resolve ?page [''#generate'', ''.generate-btn''] 10 = (Inr 7, [''#generate'', ''.generate-btn''])"
    by (simp add: Resolve_def)
  have v2: "fst (Resolve ?page capcut_generateButton 10) = Inr 7"
    by (simp add: Resolve_def capcut_generateButton_def)
  from v2 resolve_first_success [of ?page capcut_generateButton 10]
  have "\<exists>c. snd (Resolve ?page capcut_generateButton 10) =
      takeWhile (\<lambda>c. ?page c 10 = None) capcut_generateButton @ [c] \<and> ?page c 10 = Some 7"
    by blast
  then have v3: "snd (Resolve ?page capcut_generateButton 10) = [''#generate'', ''.generate-btn'']"
    by (auto simp: capcut_generateButton_def split: if_splits)
  have v4: "fst (Resolve ?blank capcut_generateButton 10) = Inl ElementNotFound"
    by (simp add: Resolve_def capcut_generateButton_def)
  from v4 resolve_first_success [of ?blank capcut_generateButton 10]
  have "snd (Resolve ?blank capcut_generateButton 10) = capcut_generateButton"
    by blast
  then have v5: "snd (Resolve ?blank capcut_generateButton 10) =
      [''#generate'', ''.generate-btn'', ''.ai-generate'']"
    by (simp add: capcut_generateButton_def)
  have ne: "capcut_generateButton \<noteq> []"
    by (simp add: capcut_generateButton_def)
  have "\<forall>c \<in> set capcut_generateButton. ?blank c 10 = None"
    by simp
  with ne resolve_first_success [of ?blank capcut_generateButton 10]
  have v6: "Resolve ?blank capcut_generateButton 10 = (Inl ElementNotFound, capcut_generateButton)"
    by blast
  have "\<exists>c \<in> set capcut_generateButton. ?page c 10 \<noteq> None"
    by (simp add: capcut_generateButton_def)
  with resolve_first_success [of ?page capcut_generateButton 10]
  obtain pre c h where "Resolve ?page capcut_generateButton 10 = (Inr h, pre @ [c])"
    by blast
  then have v7: "\<exists>h. fst (Resolve ?page capcut_generateButton 10) = Inr h"
    by simp
  from v1 v2 v3 v4 v5 ne v6 v7 show ?thesis
    by blast
qed


end
